theory Spec2Isabelle
  imports Complex_Main "HOL-Library.Multiset" "HOL-Library.Sublist" "HOL-Library.AList"
begin

section \<open>Huffman compression: the tree, the code book, the encoder and the decoder\<close>

text \<open>
  A shallow embedding of \<^verbatim>\<open>src/src/huffman_tree.py\<close> and
  \<^verbatim>\<open>src/src/huffman_compressor.py\<close>. Symbols are values of a type \<open>'a\<close>
  (the characters of a Python \<open>str\<close>), a text is a list of symbols, an encoded text is a
  \<open>string\<close> of the characters \<open>0\<close> and \<open>1\<close>. A Python \<open>dict\<close> is an association list in
  insertion order, written with \<open>AList.update\<close>: a new key goes to the end, an existing
  key keeps its place. An exception is the left summand of a sum type.
\<close>

datatype py_error = ValueError | IndexError | KeyError | AttributeError

subsection \<open>NodoHuffman\<close>

text \<open>
  The class has four fields; the character and both children may be \<open>None\<close>, so a node with
  one child, or an internal node with none, is a value of the type, as in the source.
\<close>

datatype 'a NodoHuffman =
  NodoHuffman (caracter: "'a option") (frecuencia: int)
    (izquierdo: "'a NodoHuffman option") (derecho: "'a NodoHuffman option")

text \<open>\<^verbatim>\<open>__lt__\<close>: the order of the priority queue compares the frequencies and nothing else.\<close>

definition nodo_lt :: "'a NodoHuffman \<Rightarrow> 'a NodoHuffman \<Rightarrow> bool" where
  "nodo_lt self otro = (frecuencia self < frecuencia otro)"

definition es_hoja :: "'a NodoHuffman \<Rightarrow> bool" where
  "es_hoja self = (caracter self \<noteq> None)"

subsection \<open>The priority queue: \<open>heapq\<close> of the Python standard library\<close>

text \<open>
  \<^verbatim>\<open>heapq.heappush\<close> and \<^verbatim>\<open>heapq.heappop\<close> on a Python list, with the two sifting
  procedures of \<^verbatim>\<open>Lib/heapq.py\<close>. Every comparison is \<open>nodo_lt\<close>. The functions
  return the list that the Python code mutates in place. Reading \<^verbatim>\<open>heap[pos]\<close> beyond the
  end raises \<open>IndexError\<close>; inside the loops every position read is compared with the
  length first, or lies below a position already read.
\<close>

function siftdown_loop ::
  "'a NodoHuffman list \<Rightarrow> 'a NodoHuffman \<Rightarrow> nat \<Rightarrow> nat \<Rightarrow> 'a NodoHuffman list" where
  "siftdown_loop heap newitem startpos pos =
     (if pos > startpos then
        (let parentpos = (pos - 1) div 2; parent = heap ! parentpos
         in if nodo_lt newitem parent
            then siftdown_loop (heap[pos := parent]) newitem startpos parentpos
            else heap[pos := newitem])
      else heap[pos := newitem])"
  by pat_completeness auto
termination
  by (relation "measure (\<lambda>(heap, newitem, startpos, pos). pos)") auto

definition siftdown ::
  "'a NodoHuffman list \<Rightarrow> nat \<Rightarrow> nat \<Rightarrow> py_error + 'a NodoHuffman list" where
  "siftdown heap startpos pos =
     (if pos < length heap then Inr (siftdown_loop heap (heap ! pos) startpos pos)
      else Inl IndexError)"

function siftup_loop :: "'a NodoHuffman list \<Rightarrow> nat \<Rightarrow> 'a NodoHuffman list \<times> nat" where
  "siftup_loop heap pos =
     (let endpos = length heap; childpos = 2 * pos + 1
      in if childpos < endpos then
           (let rightpos = childpos + 1;
                childpos' = (if rightpos < endpos \<and> \<not> nodo_lt (heap ! childpos) (heap ! rightpos)
                             then rightpos else childpos)
            in siftup_loop (heap[pos := heap ! childpos']) childpos')
         else (heap, pos))"
  by pat_completeness auto
termination
  by (relation "measure (\<lambda>(heap, pos). length heap - pos)") (auto simp: Let_def)

definition siftup :: "'a NodoHuffman list \<Rightarrow> nat \<Rightarrow> py_error + 'a NodoHuffman list" where
  "siftup heap pos =
     (if pos < length heap then
        (let newitem = heap ! pos; (heap', pos') = siftup_loop heap pos
         in siftdown (heap'[pos' := newitem]) pos pos')
      else Inl IndexError)"

definition heappush ::
  "'a NodoHuffman list \<Rightarrow> 'a NodoHuffman \<Rightarrow> py_error + 'a NodoHuffman list" where
  "heappush heap item = siftdown (heap @ [item]) 0 (length (heap @ [item]) - 1)"

definition heappop ::
  "'a NodoHuffman list \<Rightarrow> py_error + ('a NodoHuffman \<times> 'a NodoHuffman list)" where
  "heappop heap =
     (if heap = [] then Inl IndexError
      else (let lastelt = last heap; heap1 = butlast heap
            in if heap1 \<noteq> [] then
                 (let returnitem = heap1 ! 0
                  in case siftup (heap1[0 := lastelt]) 0 of
                       Inl e \<Rightarrow> Inl e
                     | Inr heap2 \<Rightarrow> Inr (returnitem, heap2))
               else Inr (lastelt, heap1)))"

subsection \<open>ArbolHuffman\<close>

record 'a ArbolHuffman =
  raiz :: "'a NodoHuffman option"
  codigos :: "('a \<times> string) list"

definition ArbolHuffman_init :: "'a ArbolHuffman" where
  "ArbolHuffman_init = \<lparr>raiz = None, codigos = []\<rparr>"

text \<open>The first loop of \<^verbatim>\<open>construir_desde_frecuencias\<close>: one leaf per entry, pushed in
  the order of the dictionary.\<close>

fun push_hojas ::
  "'a NodoHuffman list \<Rightarrow> ('a \<times> int) list \<Rightarrow> py_error + 'a NodoHuffman list" where
  "push_hojas heap [] = Inr heap"
| "push_hojas heap ((c, f) # resto) =
     (case heappush heap (NodoHuffman (Some c) f None None) of
        Inl e \<Rightarrow> Inl e
      | Inr heap' \<Rightarrow> push_hojas heap' resto)"

text \<open>One turn of the second loop: two pops, the parent, one push.\<close>

definition combinar :: "'a NodoHuffman list \<Rightarrow> py_error + 'a NodoHuffman list" where
  "combinar heap =
     (case heappop heap of
        Inl e \<Rightarrow> Inl e
      | Inr (izq, heap1) \<Rightarrow>
          (case heappop heap1 of
             Inl e \<Rightarrow> Inl e
           | Inr (der, heap2) \<Rightarrow>
               heappush heap2
                 (NodoHuffman None (frecuencia izq + frecuencia der) (Some izq) (Some der))))"

text \<open>The sifting procedures move elements inside the list and keep its length; the second
  loop therefore shortens the heap by one element per turn and stops.\<close>

declare siftdown_loop.simps [simp del] siftup_loop.simps [simp del]

lemma length_siftdown_loop [simp]:
  "length (siftdown_loop heap newitem startpos pos) = length heap"
proof (induction heap newitem startpos pos rule: siftdown_loop.induct)
  case (1 heap newitem startpos pos)
  show ?case
    using "1.IH" by (subst siftdown_loop.simps) (simp add: Let_def)
qed

lemma length_siftup_loop [simp]: "length (fst (siftup_loop heap pos)) = length heap"
proof (induction heap pos rule: siftup_loop.induct)
  case (1 heap pos)
  show ?case
    using "1.IH" by (subst siftup_loop.simps) (simp add: Let_def)
qed

lemma siftdown_length: "siftdown heap startpos pos = Inr heap' \<Longrightarrow> length heap' = length heap"
  by (auto simp: siftdown_def split: if_splits)

lemma siftup_length: "siftup heap pos = Inr heap' \<Longrightarrow> length heap' = length heap"
proof -
  assume a: "siftup heap pos = Inr heap'"
  obtain h p where hp: "siftup_loop heap pos = (h, p)" by (cases "siftup_loop heap pos")
  have "length h = length heap" using length_siftup_loop [of heap pos] hp by simp
  with a hp show ?thesis
    by (auto simp: siftup_def Let_def split: if_splits dest: siftdown_length)
qed

lemma heappush_length: "heappush heap item = Inr heap' \<Longrightarrow> length heap' = Suc (length heap)"
  by (auto simp: heappush_def dest: siftdown_length)

lemma heappop_length: "heappop heap = Inr (x, heap') \<Longrightarrow> Suc (length heap') = length heap"
  by (cases heap rule: rev_cases)
     (auto simp: heappop_def Let_def split: if_splits sum.splits dest!: siftup_length)

lemma combinar_length: "combinar heap = Inr heap' \<Longrightarrow> Suc (length heap') = length heap"
  by (auto simp: combinar_def split: sum.splits dest!: heappop_length heappush_length)

function construir_loop :: "'a NodoHuffman list \<Rightarrow> py_error + 'a NodoHuffman list" where
  "construir_loop heap =
     (if length heap > 1 then
        (case combinar heap of
           Inl e \<Rightarrow> Inl e
         | Inr heap' \<Rightarrow> construir_loop heap')
      else Inr heap)"
  by pat_completeness auto
termination
  by (relation "measure length") (auto dest: combinar_length)

text \<open>
  \<^verbatim>\<open>construir_desde_frecuencias\<close>. The result is the exception, if one is raised, and
  the object after the call: an exception leaves \<open>self\<close> as it was, since \<open>self.raiz\<close> is
  assigned last and the heap is a local list.
\<close>

definition construir_desde_frecuencias ::
  "'a ArbolHuffman \<Rightarrow> ('a \<times> int) list \<Rightarrow> (py_error + unit) \<times> 'a ArbolHuffman" where
  "construir_desde_frecuencias self frecuencias =
     (if frecuencias = [] then (Inl ValueError, self)
      else if length frecuencias = 1 then
        (let c = fst (frecuencias ! 0)
         in case map_of frecuencias c of
              None \<Rightarrow> (Inl KeyError, self)
            | Some f \<Rightarrow> (Inr (), self\<lparr>raiz := Some (NodoHuffman (Some c) f None None)\<rparr>))
      else
        (case push_hojas [] frecuencias of
           Inl e \<Rightarrow> (Inl e, self)
         | Inr heap \<Rightarrow>
             (case construir_loop heap of
                Inl e \<Rightarrow> (Inl e, self)
              | Inr heap' \<Rightarrow>
                  (case heap' of
                     [] \<Rightarrow> (Inl IndexError, self)
                   | nodo # _ \<Rightarrow> (Inr (), self\<lparr>raiz := Some nodo\<rparr>)))))"

text \<open>\<^verbatim>\<open>_generar_codigos_recursivo\<close> writes into \<open>self.codigos\<close>; the dictionary is passed
  in and returned.\<close>

fun generar_codigos_recursivo ::
  "'a NodoHuffman \<Rightarrow> string \<Rightarrow> ('a \<times> string) list \<Rightarrow> ('a \<times> string) list" where
  "generar_codigos_recursivo (NodoHuffman c f izq der) codigo cods =
     (case c of
        Some a \<Rightarrow> AList.update a codigo cods
      | None \<Rightarrow>
          (let cods1 = (case izq of
                          None \<Rightarrow> cods
                        | Some i \<Rightarrow> generar_codigos_recursivo i (codigo @ ''0'') cods)
           in case der of
                None \<Rightarrow> cods1
              | Some d \<Rightarrow> generar_codigos_recursivo d (codigo @ ''1'') cods1))"

text \<open>\<^verbatim>\<open>generar_codigos\<close> returns the dictionary and the object, whose \<open>codigos\<close> it
  replaces unless there is no root.\<close>

definition generar_codigos :: "'a ArbolHuffman \<Rightarrow> ('a \<times> string) list \<times> 'a ArbolHuffman" where
  "generar_codigos self =
     (case raiz self of
        None \<Rightarrow> ([], self)
      | Some r \<Rightarrow>
          (if es_hoja r then
             (let cods = AList.update (the (caracter r)) ''0'' []
              in (cods, self\<lparr>codigos := cods\<rparr>))
           else (let cods = generar_codigos_recursivo r '''' []
                 in (cods, self\<lparr>codigos := cods\<rparr>))))"

text \<open>The tree metrics of \<^verbatim>\<open>obtener_estadisticas\<close>. A missing child counts as nothing.\<close>

fun calcular_altura :: "'a NodoHuffman \<Rightarrow> int" where
  "calcular_altura (NodoHuffman c f izq der) =
     (case c of
        Some a \<Rightarrow> 0
      | None \<Rightarrow>
          (let altura_izq = (case izq of None \<Rightarrow> 0 | Some i \<Rightarrow> calcular_altura i);
               altura_der = (case der of None \<Rightarrow> 0 | Some d \<Rightarrow> calcular_altura d)
           in 1 + max altura_izq altura_der))"

fun contar_hojas :: "'a NodoHuffman \<Rightarrow> int" where
  "contar_hojas (NodoHuffman c f izq der) =
     (case c of
        Some a \<Rightarrow> 1
      | None \<Rightarrow> (case izq of None \<Rightarrow> 0 | Some i \<Rightarrow> contar_hojas i)
                + (case der of None \<Rightarrow> 0 | Some d \<Rightarrow> contar_hojas d))"

fun contar_nodos_internos :: "'a NodoHuffman \<Rightarrow> int" where
  "contar_nodos_internos (NodoHuffman c f izq der) =
     (case c of
        Some a \<Rightarrow> 0
      | None \<Rightarrow> 1 + (case izq of None \<Rightarrow> 0 | Some i \<Rightarrow> contar_nodos_internos i)
                    + (case der of None \<Rightarrow> 0 | Some d \<Rightarrow> contar_nodos_internos d))"

subsection \<open>Statistics\<close>

text \<open>
  A statistics dictionary has string keys and integer, float or boolean values. The float
  operations of Python are parameters of the model, so that nothing is assumed about their
  rounding: \<open>truediv a b\<close> is \<^verbatim>\<open>a / b\<close> on two integers, \<open>por x n\<close> is \<^verbatim>\<open>x * n\<close> on a
  float and an integer, \<open>cero\<close> is the literal \<^verbatim>\<open>0.0\<close>. The elapsed time that the code
  reads from the clock is an argument.
\<close>

datatype 'f valor = Entero int | Flotante 'f | Booleano bool

record 'f flotantes =
  truediv :: "int \<Rightarrow> int \<Rightarrow> 'f"
  por :: "'f \<Rightarrow> int \<Rightarrow> 'f"
  cero :: "'f"

type_synonym 'f estadisticas = "(string \<times> 'f valor) list"

definition dict_update :: "('k \<times> 'v) list \<Rightarrow> ('k \<times> 'v) list \<Rightarrow> ('k \<times> 'v) list" where
  "dict_update d otro = foldl (\<lambda>acc (k, v). AList.update k v acc) d otro"

definition calcular_longitud_promedio :: "'f flotantes \<Rightarrow> 'a ArbolHuffman \<Rightarrow> 'f valor" where
  "calcular_longitud_promedio fl self =
     (if codigos self = [] then Flotante (cero fl)
      else (let total_longitud = sum_list (map (\<lambda>(k, codigo). int (length codigo)) (codigos self))
            in Flotante (truediv fl total_longitud (int (length (codigos self))))))"

definition obtener_estadisticas :: "'f flotantes \<Rightarrow> 'a ArbolHuffman \<Rightarrow> 'f estadisticas" where
  "obtener_estadisticas fl self =
     (case raiz self of
        None \<Rightarrow> []
      | Some r \<Rightarrow>
          [(''altura'', Entero (calcular_altura r)),
           (''num_hojas'', Entero (contar_hojas r)),
           (''num_nodos_internos'', Entero (contar_nodos_internos r)),
           (''longitud_promedio_codigo'', calcular_longitud_promedio fl self)])"

definition generar_estadisticas ::
  "'f flotantes \<Rightarrow> 'a list \<Rightarrow> string \<Rightarrow> 'f valor \<Rightarrow> 'f estadisticas" where
  "generar_estadisticas fl texto_original texto_codificado tiempo_procesamiento =
     (if texto_original = [] then
        [(''longitud_original'', Entero 0),
         (''longitud_comprimida'', Entero 0),
         (''bits_originales'', Entero 0),
         (''bits_comprimidos'', Entero 0),
         (''tasa_compresion'', Entero 0),
         (''factor_compresion'', Entero 0),
         (''bits_ahorrados'', Entero 0),
         (''tiempo_compresion'', tiempo_procesamiento)]
      else
        (let longitud_original = int (length texto_original);
             longitud_comprimida = int (length texto_codificado);
             bits_originales = longitud_original * 8;
             bits_comprimidos = longitud_comprimida;
             bits_ahorrados = bits_originales - bits_comprimidos;
             tasa_compresion =
               (if bits_originales > 0
                then Flotante (por fl (truediv fl bits_ahorrados bits_originales) 100)
                else Entero 0);
             factor_compresion =
               (if bits_comprimidos > 0
                then Flotante (truediv fl bits_originales bits_comprimidos)
                else Entero 0)
         in [(''longitud_original'', Entero longitud_original),
             (''longitud_comprimida'', Entero longitud_comprimida),
             (''bits_originales'', Entero bits_originales),
             (''bits_comprimidos'', Entero bits_comprimidos),
             (''tasa_compresion'', tasa_compresion),
             (''factor_compresion'', factor_compresion),
             (''bits_ahorrados'', Entero bits_ahorrados),
             (''tiempo_compresion'', tiempo_procesamiento)]))"

subsection \<open>CompresorHuffman\<close>

record ('a, 'f) CompresorHuffman =
  arbol :: "'a ArbolHuffman"
  estadisticas :: "'f estadisticas"

text \<open>\<^verbatim>\<open>dict(Counter(texto))\<close>: the symbols in the order of their first occurrence, each
  with the number of its occurrences.\<close>

definition contar :: "('a \<times> int) list \<Rightarrow> 'a \<Rightarrow> ('a \<times> int) list" where
  "contar d c = AList.update c (case map_of d c of None \<Rightarrow> 1 | Some n \<Rightarrow> n + 1) d"

definition Counter :: "'a list \<Rightarrow> ('a \<times> int) list" where
  "Counter texto = foldl contar [] texto"

definition calcular_frecuencias :: "'a list \<Rightarrow> ('a \<times> int) list" where
  "calcular_frecuencias texto = (if texto = [] then [] else Counter texto)"

text \<open>\<^verbatim>\<open>_codificar_texto\<close>: \<^verbatim>\<open>codigos[caracter]\<close> raises \<open>KeyError\<close> for a symbol without
  a code.\<close>

fun codificar_texto :: "'a list \<Rightarrow> ('a \<times> string) list \<Rightarrow> py_error + string" where
  "codificar_texto [] cods = Inr []"
| "codificar_texto (c # resto) cods =
     (case map_of cods c of
        None \<Rightarrow> Inl KeyError
      | Some codigo \<Rightarrow>
          (case codificar_texto resto cods of
             Inl e \<Rightarrow> Inl e
           | Inr s \<Rightarrow> Inr (codigo @ s)))"

text \<open>
  \<^verbatim>\<open>comprimir\<close> returns the four results, or the exception, and the compressor after
  the call. \<open>tiempo_transcurrido\<close> is the elapsed time measured by the call.
\<close>

definition comprimir ::
  "'f flotantes \<Rightarrow> ('a, 'f) CompresorHuffman \<Rightarrow> 'a list \<Rightarrow> 'f \<Rightarrow>
   (py_error + string \<times> ('a \<times> string) list \<times> 'a NodoHuffman option \<times> 'f estadisticas)
   \<times> ('a, 'f) CompresorHuffman" where
  "comprimir fl self texto tiempo_transcurrido =
     (if texto = [] then
        (Inr ([], [], None, generar_estadisticas fl texto [] (Entero 0)), self)
      else
        (let frecuencias = calcular_frecuencias texto
         in case construir_desde_frecuencias (arbol self) frecuencias of
              (Inl e, arbol1) \<Rightarrow> (Inl e, self\<lparr>arbol := arbol1\<rparr>)
            | (Inr u, arbol1) \<Rightarrow>
                (let (cods, arbol2) = generar_codigos arbol1
                 in case codificar_texto texto cods of
                      Inl e \<Rightarrow> (Inl e, self\<lparr>arbol := arbol2\<rparr>)
                    | Inr texto_codificado \<Rightarrow>
                        (let est = dict_update
                                     (generar_estadisticas fl texto texto_codificado
                                        (Flotante tiempo_transcurrido))
                                     (obtener_estadisticas fl arbol2)
                         in (Inr (texto_codificado, cods, raiz arbol2, est),
                             self\<lparr>arbol := arbol2, estadisticas := est\<rparr>)))))"

text \<open>
  The decoding loop of \<^verbatim>\<open>descomprimir\<close>. Any character other than \<open>0\<close> moves to the
  right. Moving to a missing child makes \<open>nodo_actual\<close> \<open>None\<close>, and the call
  \<^verbatim>\<open>nodo_actual.es_hoja()\<close> that follows raises \<open>AttributeError\<close>. At the end of the
  digits the loop ends with the text decoded so far and the cursor, wherever it is.
\<close>

fun descomprimir_loop ::
  "'a NodoHuffman \<Rightarrow> 'a NodoHuffman \<Rightarrow> string \<Rightarrow> 'a list \<Rightarrow>
   py_error + 'a list \<times> 'a NodoHuffman" where
  "descomprimir_loop rz nodo_actual [] texto_decodificado =
     Inr (texto_decodificado, nodo_actual)"
| "descomprimir_loop rz nodo_actual (b # resto) texto_decodificado =
     (case (if b = CHR ''0'' then izquierdo nodo_actual else derecho nodo_actual) of
        None \<Rightarrow> Inl AttributeError
      | Some nodo \<Rightarrow>
          (if es_hoja nodo
           then descomprimir_loop rz rz resto (texto_decodificado @ [the (caracter nodo)])
           else descomprimir_loop rz nodo resto texto_decodificado))"

definition descomprimir ::
  "string \<Rightarrow> 'a NodoHuffman option \<Rightarrow> 'f \<Rightarrow> py_error + 'a list \<times> 'f estadisticas" where
  "descomprimir texto_codificado rz tiempo_transcurrido =
     (case rz of
        None \<Rightarrow> Inr ([], [(''tiempo_descompresion'', Entero 0), (''exito'', Booleano False)])
      | Some r \<Rightarrow>
          (if texto_codificado = [] then
             Inr ([], [(''tiempo_descompresion'', Entero 0), (''exito'', Booleano False)])
           else
             (case (if es_hoja r
                    then Inr (replicate (length texto_codificado) (the (caracter r)), r)
                    else descomprimir_loop r r texto_codificado []) of
                Inl e \<Rightarrow> Inl e
              | Inr (texto_decodificado, nodo_actual) \<Rightarrow>
                  Inr (texto_decodificado,
                       [(''tiempo_descompresion'', Flotante tiempo_transcurrido),
                        (''longitud_decodificada'', Entero (int (length texto_decodificado))),
                        (''exito'', Booleano True)]))))"

subsection \<open>Notions used to state the properties\<close>

text \<open>A tree is full when every node without a character has both children, and they are
  full.\<close>

fun completo :: "'a NodoHuffman \<Rightarrow> bool" where
  "completo (NodoHuffman c f izq der) =
     (case c of
        Some a \<Rightarrow> True
      | None \<Rightarrow> (case izq of None \<Rightarrow> False | Some i \<Rightarrow> completo i)
                \<and> (case der of None \<Rightarrow> False | Some d \<Rightarrow> completo d))"

text \<open>The symbols at the leaves, from left to right, and each with the path that leads to
  it from the node: \<open>0\<close> to the left, \<open>1\<close> to the right.\<close>

fun hojas :: "'a NodoHuffman \<Rightarrow> 'a list" where
  "hojas (NodoHuffman c f izq der) =
     (case c of
        Some a \<Rightarrow> [a]
      | None \<Rightarrow> (case izq of None \<Rightarrow> [] | Some i \<Rightarrow> hojas i)
                @ (case der of None \<Rightarrow> [] | Some d \<Rightarrow> hojas d))"

fun caminos :: "'a NodoHuffman \<Rightarrow> ('a \<times> string) list" where
  "caminos (NodoHuffman c f izq der) =
     (case c of
        Some a \<Rightarrow> [(a, [])]
      | None \<Rightarrow>
          (case izq of None \<Rightarrow> [] | Some i \<Rightarrow> map (\<lambda>(a, p). (a, CHR ''0'' # p)) (caminos i))
          @ (case der of None \<Rightarrow> [] | Some d \<Rightarrow> map (\<lambda>(a, p). (a, CHR ''1'' # p)) (caminos d)))"

text \<open>The leaves with their weights, from left to right.\<close>

fun hojas_pesos :: "'a NodoHuffman \<Rightarrow> ('a \<times> int) list" where
  "hojas_pesos (NodoHuffman c f izq der) =
     (case c of
        Some a \<Rightarrow> [(a, f)]
      | None \<Rightarrow> (case izq of None \<Rightarrow> [] | Some i \<Rightarrow> hojas_pesos i)
                @ (case der of None \<Rightarrow> [] | Some d \<Rightarrow> hojas_pesos d))"

text \<open>A tree is additive when the weight of every node without a character is the sum of the
  weights of its children.\<close>

fun aditivo :: "'a NodoHuffman \<Rightarrow> bool" where
  "aditivo (NodoHuffman c f izq der) =
     (case c of
        Some a \<Rightarrow> True
      | None \<Rightarrow>
          f = (case izq of None \<Rightarrow> 0 | Some i \<Rightarrow> frecuencia i)
            + (case der of None \<Rightarrow> 0 | Some d \<Rightarrow> frecuencia d)
          \<and> (case izq of None \<Rightarrow> True | Some i \<Rightarrow> aditivo i)
          \<and> (case der of None \<Rightarrow> True | Some d \<Rightarrow> aditivo d))"

text \<open>The symbols held by the nodes of a heap, as a multiset.\<close>

definition simbolos :: "'a NodoHuffman list \<Rightarrow> 'a multiset" where
  "simbolos heap = (\<Sum>n\<in>#mset heap. mset (hojas n))"

text \<open>One instance of the float operations, exact on the rationals, to evaluate the model
  on concrete inputs.\<close>

definition exactas :: "rat flotantes" where
  "exactas = \<lparr>truediv = (\<lambda>a b. of_int a / of_int b), por = (\<lambda>x n. x * of_int n), cero = 0\<rparr>"

definition CompresorHuffman_init :: "('a, 'f) CompresorHuffman" where
  "CompresorHuffman_init = \<lparr>arbol = ArbolHuffman_init, estadisticas = []\<rparr>"

declare construir_loop.simps [simp del]

section \<open>The priority queue keeps its elements\<close>

text \<open>Pushing and popping permute the list: as multisets, a push adds the new node and a pop
  removes the node it returns. Neither raises on the lists that the construction passes.\<close>

lemma mset_update_swap:
  assumes "i < length xs" "j < length xs" "i \<noteq> j"
  shows "mset (xs[i := xs ! j, j := v]) = mset (xs[i := v])"
proof -
  have "mset (xs[i := xs ! j, j := v]) = add_mset v (mset (xs[i := xs ! j]) - {#xs ! j#})"
    using assms by (simp add: mset_update)
  also have "mset (xs[i := xs ! j]) = add_mset (xs ! j) (mset xs - {#xs ! i#})"
    using assms by (simp add: mset_update)
  finally show ?thesis using assms by (simp add: mset_update)
qed

lemma mset_siftdown_loop:
  "pos < length heap \<Longrightarrow>
   mset (siftdown_loop heap newitem startpos pos) = mset (heap[pos := newitem])"
proof (induction heap newitem startpos pos rule: siftdown_loop.induct)
  case (1 heap newitem startpos pos)
  show ?case
  proof (cases "pos > startpos \<and> nodo_lt newitem (heap ! ((pos - 1) div 2))")
    case True
    let ?pp = "(pos - 1) div 2"
    have pp: "?pp < pos" using True by auto
    have "siftdown_loop heap newitem startpos pos =
          siftdown_loop (heap[pos := heap ! ?pp]) newitem startpos ?pp"
      using True by (subst siftdown_loop.simps) (simp add: Let_def)
    also have "mset \<dots> = mset (heap[pos := heap ! ?pp, ?pp := newitem])"
      using "1.IH" [OF _ refl refl, of ] True pp "1.prems" by simp
    also have "\<dots> = mset (heap[pos := newitem])"
      using mset_update_swap [of pos heap ?pp newitem] pp "1.prems" by simp
    finally show ?thesis .
  next
    case False
    then show ?thesis by (subst siftdown_loop.simps) (auto simp: Let_def)
  qed
qed

lemma siftup_loop_props:
  "pos < length heap \<Longrightarrow> siftup_loop heap pos = (h, p) \<Longrightarrow>
   p < length heap \<and> pos \<le> p \<and> length h = length heap \<and> mset (h[p := x]) = mset (heap[pos := x])"
proof (induction heap pos arbitrary: h p rule: siftup_loop.induct)
  case (1 heap pos)
  show ?case
  proof (cases "2 * pos + 1 < length heap")
    case True
    define c where "c = (if 2 * pos + 1 + 1 < length heap \<and> \<not> nodo_lt (heap ! (2 * pos + 1)) (heap ! (2 * pos + 1 + 1))
                             then 2 * pos + 1 + 1 else 2 * pos + 1)"
    have c: "c < length heap" "pos < c" using True by (auto simp: c_def)
    have eq: "siftup_loop heap pos = siftup_loop (heap[pos := heap ! c]) c"
      using True by (subst siftup_loop.simps) (simp add: Let_def c_def)
    with "1.prems" have hp: "siftup_loop (heap[pos := heap ! c]) c = (h, p)" by simp
    note ih0 = "1.IH" [OF refl refl True refl refl, folded c_def]
    have ih: "p < length (heap[pos := heap ! c]) \<and> c \<le> p \<and> length h = length (heap[pos := heap ! c]) \<and>
          mset (h[p := x]) = mset (heap[pos := heap ! c, c := x])"
      using ih0 [OF _ hp] c by simp
    moreover have "mset (heap[pos := heap ! c, c := x]) = mset (heap[pos := x])"
      using mset_update_swap [of pos heap c x] c "1.prems" by simp
    ultimately show ?thesis using c by simp
  next
    case False
    then have "siftup_loop heap pos = (heap, pos)"
      by (subst siftup_loop.simps) (simp add: Let_def)
    with "1.prems" show ?thesis by auto
  qed
qed

lemma siftdown_ok:
  "pos < length heap \<Longrightarrow> \<exists>h. siftdown heap startpos pos = Inr h \<and> mset h = mset heap"
  by (simp add: siftdown_def mset_siftdown_loop)

lemma siftup_ok:
  assumes "pos < length heap"
  shows "\<exists>h. siftup heap pos = Inr h \<and> mset h = mset heap"
proof -
  obtain h p where hp: "siftup_loop heap pos = (h, p)" by (cases "siftup_loop heap pos")
  from siftup_loop_props [OF assms hp, of "heap ! pos"]
  have p: "p < length h" and m: "mset (h[p := heap ! pos]) = mset heap" by simp_all
  from p obtain h' where "siftdown (h[p := heap ! pos]) pos p = Inr h'"
    "mset h' = mset (h[p := heap ! pos])"
    using siftdown_ok [of p "h[p := heap ! pos]" pos] by auto
  with m hp assms show ?thesis by (simp add: siftup_def)
qed

lemma heappush_ok: "\<exists>h. heappush heap item = Inr h \<and> mset h = add_mset item (mset heap)"
  using siftdown_ok [of "length heap" "heap @ [item]" 0] by (simp add: heappush_def)

lemma heappop_ok:
  assumes "heap \<noteq> []"
  shows "\<exists>x h. heappop heap = Inr (x, h) \<and> mset heap = add_mset x (mset h)"
proof -
  from assms obtain xs l where heap: "heap = xs @ [l]" by (cases heap rule: rev_cases) auto
  show ?thesis
  proof (cases "xs = []")
    case True
    with heap show ?thesis by (simp add: heappop_def)
  next
    case False
    then have "0 < length (xs[0 := l])" by simp
    from siftup_ok [OF this] obtain h where h: "siftup (xs[0 := l]) 0 = Inr h"
      "mset h = mset (xs[0 := l])" by blast
    have "xs ! 0 \<in># mset xs" using False by (simp add: nth_mem_mset)
    moreover have "mset (xs[0 := l]) = add_mset l (mset xs - {#xs ! 0#})"
      using False by (simp add: mset_update)
    ultimately have "mset heap = add_mset (xs ! 0) (mset h)"
      using h heap by simp
    with h False heap show ?thesis by (simp add: heappop_def)
  qed
qed

section \<open>The construction loop\<close>

text \<open>Each turn keeps the nodes of the heap full and keeps the multiset of their symbols; the
  loop ends with one node, which has no character when the heap had at least two nodes.\<close>

lemma combinar_ok:
  assumes "1 < length heap"
  shows "\<exists>izq der M h. combinar heap = Inr h \<and> mset heap = add_mset izq (add_mset der M) \<and>
           mset h = add_mset (NodoHuffman None (frecuencia izq + frecuencia der) (Some izq) (Some der)) M"
proof -
  from assms have "heap \<noteq> []" by auto
  from heappop_ok [OF this] obtain izq h1 where
    p1: "heappop heap = Inr (izq, h1)" "mset heap = add_mset izq (mset h1)" by blast
  from p1(2) assms have "h1 \<noteq> []"
    by (metis One_nat_def Suc_lessD length_0_conv less_irrefl_nat mset.simps(1) size_add_mset size_empty size_mset)
  from heappop_ok [OF this] obtain der h2 where
    p2: "heappop h1 = Inr (der, h2)" "mset h1 = add_mset der (mset h2)" by blast
  let ?padre = "NodoHuffman None (frecuencia izq + frecuencia der) (Some izq) (Some der)"
  from heappush_ok [of h2 ?padre] obtain h where
    p3: "heappush h2 ?padre = Inr h" "mset h = add_mset ?padre (mset h2)" by blast
  from p1 p2 p3 show ?thesis by (auto simp: combinar_def)
qed

lemma simbolos_mset: "mset h = mset h' \<Longrightarrow> simbolos h = simbolos h'"
  by (simp add: simbolos_def)

lemma combinar_invariante:
  assumes "1 < length heap" "\<forall>n\<in>set heap. completo n"
  shows "\<exists>h. combinar heap = Inr h \<and> Suc (length h) = length heap \<and> (\<forall>n\<in>set h. completo n) \<and>
           simbolos h = simbolos heap \<and> (length heap = 2 \<longrightarrow> (\<exists>n. h = [n] \<and> caracter n = None))"
proof -
  from combinar_ok [OF assms(1)] obtain izq der M h where
    c: "combinar heap = Inr h" "mset heap = add_mset izq (add_mset der M)"
       "mset h = add_mset (NodoHuffman None (frecuencia izq + frecuencia der) (Some izq) (Some der)) M"
    by blast
  let ?padre = "NodoHuffman None (frecuencia izq + frecuencia der) (Some izq) (Some der)"
  have len: "Suc (length h) = length heap" using c(1) by (rule combinar_length)
  have sets: "set heap = insert izq (insert der (set_mset M))" "set h = insert ?padre (set_mset M)"
    using c(2,3) by (metis set_mset_add_mset_insert set_mset_mset)+
  have comp: "\<forall>n\<in>set h. completo n" using assms(2) sets by auto
  have sim: "simbolos h = simbolos heap" using c(2,3) by (simp add: simbolos_def)
  have two: "length heap = 2 \<longrightarrow> (\<exists>n. h = [n] \<and> caracter n = None)"
  proof
    assume "length heap = 2"
    with len have "length h = 1" by simp
    then obtain n where n: "h = [n]" by (cases h) auto
    from \<open>length heap = 2\<close> c(2) have "M = {#}"
      by (metis (no_types, lifting) One_nat_def Suc_1 Suc_inject size_add_mset size_eq_0_iff_empty size_mset)
    with c(3) n have "n = ?padre" by simp
    with n show "\<exists>n. h = [n] \<and> caracter n = None" by simp
  qed
  from c(1) len comp sim two show ?thesis by blast
qed

lemma construir_loop_ok:
  "heap \<noteq> [] \<Longrightarrow> \<forall>n\<in>set heap. completo n \<Longrightarrow>
   \<exists>n. construir_loop heap = Inr [n] \<and> completo n \<and> mset (hojas n) = simbolos heap \<and>
       (1 < length heap \<longrightarrow> caracter n = None)"
proof (induction heap rule: construir_loop.induct)
  case (1 heap)
  show ?case
  proof (cases "1 < length heap")
    case False
    with "1.prems" obtain n where n: "heap = [n]" by (cases heap) auto
    then have "construir_loop heap = Inr [n]" by (simp add: construir_loop.simps)
    with n "1.prems" show ?thesis by (simp add: simbolos_def)
  next
    case True
    from combinar_invariante [OF True "1.prems"(2)] obtain h where
      h: "combinar heap = Inr h" "Suc (length h) = length heap" "\<forall>n\<in>set h. completo n"
         "simbolos h = simbolos heap" "length heap = 2 \<longrightarrow> (\<exists>n. h = [n] \<and> caracter n = None)"
      by blast
    from h(2) True have hne: "h \<noteq> []" by auto
    from "1.IH" [OF True h(1) hne h(3)] obtain n where
      n: "construir_loop h = Inr [n]" "completo n" "mset (hojas n) = simbolos h"
         "1 < length h \<longrightarrow> caracter n = None" by blast
    have eq: "construir_loop heap = construir_loop h"
      using True h(1) by (subst construir_loop.simps) simp
    have "caracter n = None"
    proof (cases "1 < length h")
      case True
      with n(4) show ?thesis by simp
    next
      case False
      with h(2) \<open>1 < length heap\<close> have "length heap = 2" by simp
      with h(5) obtain m where m: "h = [m]" "caracter m = None" by blast
      then have "construir_loop h = Inr [m]" by (simp add: construir_loop.simps)
      with n(1) m show ?thesis by simp
    qed
    with eq n h(4) show ?thesis by simp
  qed
qed

lemma push_hojas_ok:
  "\<exists>h. push_hojas heap frecs = Inr h \<and>
       mset h = mset heap + mset (map (\<lambda>(c, f). NodoHuffman (Some c) f None None) frecs)"
proof (induction frecs arbitrary: heap)
  case Nil
  show ?case by simp
next
  case (Cons x frecs)
  obtain c f where x: "x = (c, f)" by (cases x)
  from heappush_ok [of heap "NodoHuffman (Some c) f None None"] obtain h1 where
    h1: "heappush heap (NodoHuffman (Some c) f None None) = Inr h1"
        "mset h1 = add_mset (NodoHuffman (Some c) f None None) (mset heap)" by blast
  from Cons.IH [of h1] obtain h where
    "push_hojas h1 frecs = Inr h"
    "mset h = mset h1 + mset (map (\<lambda>(c, f). NodoHuffman (Some c) f None None) frecs)" by blast
  with h1 x show ?case by simp
qed

lemma simbolos_hojas:
  "simbolos (map (\<lambda>(c, f). NodoHuffman (Some c) f None None) frecs) = mset (map fst frecs)"
  by (induction frecs) (auto simp: simbolos_def)

lemma construir_general:
  assumes "1 < length frecs"
  shows "\<exists>r. construir_desde_frecuencias self frecs = (Inr (), self\<lparr>raiz := Some r\<rparr>) \<and>
           completo r \<and> caracter r = None \<and> mset (hojas r) = mset (map fst frecs)"
proof -
  let ?leaves = "map (\<lambda>(c, f). NodoHuffman (Some c) f None None) frecs"
  from push_hojas_ok [of "[]" frecs] obtain h where
    h: "push_hojas [] frecs = Inr h" "mset h = mset ?leaves" by auto
  then have len: "length h = length frecs" by (metis length_map size_mset)
  have seth: "set h = set ?leaves" using h(2) by (metis set_mset_mset)
  have comp: "\<forall>n\<in>set h. completo n" unfolding seth by auto
  from len assms have hne: "h \<noteq> []" by auto
  from construir_loop_ok [OF hne comp] obtain r where
    r: "construir_loop h = Inr [r]" "completo r" "mset (hojas r) = simbolos h"
       "1 < length h \<longrightarrow> caracter r = None" by blast
  have "simbolos h = mset (map fst frecs)"
    using simbolos_mset [OF h(2)] simbolos_hojas [of frecs] by simp
  with r h len assms show ?thesis
    by (auto simp: construir_desde_frecuencias_def)
qed

lemma construir_unico:
  "construir_desde_frecuencias self [(c, f)] =
     (Inr (), self\<lparr>raiz := Some (NodoHuffman (Some c) f None None)\<rparr>)"
  by (simp add: construir_desde_frecuencias_def)

text \<open>The same loop, for any property of nodes that merging keeps and any measure that merging
  adds up; then for the weights.\<close>

lemma construir_loop_invariante:
  fixes mu :: "'a NodoHuffman \<Rightarrow> 'b :: comm_monoid_add"
  assumes cierre: "\<And>izq der. P izq \<Longrightarrow> P der \<Longrightarrow>
             P (NodoHuffman None (frecuencia izq + frecuencia der) (Some izq) (Some der))"
    and suma: "\<And>izq der.
             mu (NodoHuffman None (frecuencia izq + frecuencia der) (Some izq) (Some der))
               = mu izq + mu der"
  shows "heap \<noteq> [] \<Longrightarrow> \<forall>n\<in>set heap. P n \<Longrightarrow>
         \<exists>n. construir_loop heap = Inr [n] \<and> P n \<and> mu n = (\<Sum>x\<in>#mset heap. mu x)"
proof (induction heap rule: construir_loop.induct)
  case (1 heap)
  show ?case
  proof (cases "1 < length heap")
    case False
    with "1.prems" obtain n where n: "heap = [n]" by (cases heap) auto
    then have "construir_loop heap = Inr [n]" by (simp add: construir_loop.simps)
    with n "1.prems" show ?thesis by simp
  next
    case True
    from combinar_ok [OF True] obtain izq der M h where
      c: "combinar heap = Inr h" "mset heap = add_mset izq (add_mset der M)"
         "mset h = add_mset (NodoHuffman None (frecuencia izq + frecuencia der) (Some izq) (Some der)) M"
      by blast
    let ?padre = "NodoHuffman None (frecuencia izq + frecuencia der) (Some izq) (Some der)"
    have sets: "set heap = insert izq (insert der (set_mset M))" "set h = insert ?padre (set_mset M)"
      using c(2,3) by (metis set_mset_add_mset_insert set_mset_mset)+
    have hne: "h \<noteq> []" using c(3) by auto
    have Ph: "\<forall>n\<in>set h. P n" using "1.prems"(2) sets cierre by auto
    from "1.IH" [OF True c(1) hne Ph] obtain n where
      n: "construir_loop h = Inr [n]" "P n" "mu n = (\<Sum>x\<in>#mset h. mu x)" by blast
    have eq: "construir_loop heap = construir_loop h"
      using True c(1) by (subst construir_loop.simps) simp
    have "(\<Sum>x\<in>#mset h. mu x) = (\<Sum>x\<in>#mset heap. mu x)"
      using c(2,3) suma by (simp add: add.assoc)
    with eq n show ?thesis by simp
  qed
qed

lemma entradas_hojas:
  "(\<Sum>x\<in>#mset (map (\<lambda>(c, f). NodoHuffman (Some c) f None None) frecs). mset (hojas_pesos x))
     = mset frecs"
  by (induction frecs) auto

lemma construir_general_pesos:
  assumes "1 < length frecs"
  shows "\<exists>r. construir_desde_frecuencias self frecs = (Inr (), self\<lparr>raiz := Some r\<rparr>) \<and>
           aditivo r \<and> mset (hojas_pesos r) = mset frecs"
proof -
  let ?leaves = "map (\<lambda>(c, f). NodoHuffman (Some c) f None None) frecs"
  from push_hojas_ok [of "[]" frecs] obtain h where
    h: "push_hojas [] frecs = Inr h" "mset h = mset ?leaves" by auto
  then have len: "length h = length frecs" by (metis length_map size_mset)
  have seth: "set h = set ?leaves" using h(2) by (metis set_mset_mset)
  have ad: "\<forall>n\<in>set h. aditivo n" unfolding seth by auto
  from len assms have hne: "h \<noteq> []" by auto
  have "\<exists>n. construir_loop h = Inr [n] \<and> aditivo n \<and>
            mset (hojas_pesos n) = (\<Sum>x\<in>#mset h. mset (hojas_pesos x))"
    by (rule construir_loop_invariante [where P = aditivo and mu = "\<lambda>n. mset (hojas_pesos n)", OF _ _ hne ad])
       simp_all
  then obtain r where
    r: "construir_loop h = Inr [r]" "aditivo r"
       "mset (hojas_pesos r) = (\<Sum>x\<in>#mset h. mset (hojas_pesos x))" by blast
  have "mset (hojas_pesos r) = mset frecs"
    using r(3) h(2) entradas_hojas [of frecs] by simp
  with r h len assms show ?thesis
    by (auto simp: construir_desde_frecuencias_def)
qed

lemma map_fst_hojas_pesos: "map fst (hojas_pesos n) = hojas n"
  by (induction n rule: hojas_pesos.induct) (auto split: option.splits)

lemma frecuencia_aditivo:
  "aditivo n \<Longrightarrow> completo n \<Longrightarrow> frecuencia n = sum_list (map snd (hojas_pesos n))"
  by (induction n rule: hojas_pesos.induct) (auto split: option.splits)

section \<open>Codes are the paths to the leaves\<close>

lemma update_nuevo: "k \<notin> fst ` set d \<Longrightarrow> AList.update k v d = d @ [(k, v)]"
  by (induction d) auto

lemma dict_update_append:
  "dict_update d (xs @ ys) = dict_update (dict_update d xs) ys"
  by (simp add: dict_update_def)

lemma dict_update_distinct:
  "distinct (map fst (d @ xs)) \<Longrightarrow> dict_update d xs = d @ xs"
proof (induction xs arbitrary: d)
  case Nil
  show ?case by (simp add: dict_update_def)
next
  case (Cons x xs)
  obtain k v where x: "x = (k, v)" by (cases x)
  from Cons.prems x have "k \<notin> fst ` set d" by auto
  then have u: "AList.update k v d = d @ [(k, v)]" by (rule update_nuevo)
  have "dict_update d (x # xs) = dict_update (d @ [(k, v)]) xs"
    using u x by (simp add: dict_update_def)
  also have "\<dots> = (d @ [(k, v)]) @ xs"
    using Cons.prems x by (intro Cons.IH) simp
  finally show ?case using x by simp
qed

lemma map_fst_caminos: "map fst (caminos n) = hojas n"
  by (induction n rule: caminos.induct) (auto split: option.splits simp: comp_def case_prod_unfold)

lemma generar_codigos_recursivo_caminos:
  "generar_codigos_recursivo n codigo cods =
   dict_update cods (map (\<lambda>(a, p). (a, codigo @ p)) (caminos n))"
proof (induction n codigo cods rule: generar_codigos_recursivo.induct)
  case (1 c f izq der codigo cods)
  show ?case
  proof (cases c)
    case (Some a)
    then show ?thesis by (simp add: dict_update_def)
  next
    case None
    note ih1 = "1.IH"(1) [OF None]
    note ih2 = "1.IH"(2) [OF None refl]
    show ?thesis
      using None ih1 ih2
      by (cases izq; cases der)
         (simp_all add: dict_update_append [symmetric] comp_def case_prod_unfold, simp_all add: dict_update_def)
  qed
qed

lemma caminos_hoja: "es_hoja n \<Longrightarrow> caminos n = [(the (caracter n), [])]"
  by (cases n) (auto simp: es_hoja_def)

lemma descomprimir_loop_camino:
  "(a, p) \<in> set (caminos n) \<Longrightarrow> \<not> es_hoja n \<Longrightarrow>
   descomprimir_loop rz n (p @ resto) out = descomprimir_loop rz rz resto (out @ [a])"
proof (induction n arbitrary: p rule: caminos.induct)
  case (1 c f izq der)
  from "1.prems"(2) have c: "c = None" by (simp add: es_hoja_def)
  from "1.prems"(1) c consider
    (izq) i q where "izq = Some i" "(a, q) \<in> set (caminos i)" "p = CHR ''0'' # q"
  | (der) d q where "der = Some d" "(a, q) \<in> set (caminos d)" "p = CHR ''1'' # q"
    by (auto split: option.splits)
  then show ?case
  proof cases
    case izq
    show ?thesis
    proof (cases "es_hoja i")
      case True
      with izq caminos_hoja [OF True] show ?thesis by simp
    next
      case False
      with izq "1.IH"(1) [OF c izq(1) izq(2) False] show ?thesis by simp
    qed
  next
    case der
    show ?thesis
    proof (cases "es_hoja d")
      case True
      with der caminos_hoja [OF True] show ?thesis by simp
    next
      case False
      with der "1.IH"(2) [OF c der(1) der(2) False] show ?thesis by simp
    qed
  qed
qed

lemma caminos_digitos: "(a, p) \<in> set (caminos n) \<Longrightarrow> set p \<subseteq> {CHR ''0'', CHR ''1''}"
proof (induction n arbitrary: p rule: caminos.induct)
  case (1 c f izq der)
  then show ?case by (fastforce split: option.splits)
qed

lemma caminos_no_vacio: "(a, p) \<in> set (caminos n) \<Longrightarrow> \<not> es_hoja n \<Longrightarrow> p \<noteq> []"
  by (cases n) (auto simp: es_hoja_def split: option.splits)

lemma caminos_prefijo:
  "(a, p) \<in> set (caminos n) \<Longrightarrow> (b, q) \<in> set (caminos n) \<Longrightarrow> prefix p q \<Longrightarrow>
   distinct (hojas n) \<Longrightarrow> a = b"
proof (induction n arbitrary: p q rule: caminos.induct)
  case (1 c f izq der)
  show ?case
  proof (cases c)
    case (Some x)
    with "1.prems" show ?thesis by simp
  next
    case None
    from "1.prems"(1) None consider
      (izq) i p' where "izq = Some i" "(a, p') \<in> set (caminos i)" "p = CHR ''0'' # p'"
    | (der) d p' where "der = Some d" "(a, p') \<in> set (caminos d)" "p = CHR ''1'' # p'"
      by (auto split: option.splits)
    then show ?thesis
    proof cases
      case izq
      from "1.prems"(2,3) None izq obtain q' where q: "(b, q') \<in> set (caminos i)" "q = CHR ''0'' # q'"
        by (auto split: option.splits)
      from "1.prems"(4) None izq have "distinct (hojas i)" by (simp split: option.splits)
      from "1.IH"(1) [OF None izq(1) izq(2) q(1) _ this] "1.prems"(3) izq q show ?thesis by simp
    next
      case der
      from "1.prems"(2,3) None der obtain q' where q: "(b, q') \<in> set (caminos d)" "q = CHR ''1'' # q'"
        by (auto split: option.splits)
      from "1.prems"(4) None der have "distinct (hojas d)" by (simp split: option.splits)
      from "1.IH"(2) [OF None der(1) der(2) q(1) _ this] "1.prems"(3) der q show ?thesis by simp
    qed
  qed
qed

lemma codificar_descomprimir:
  assumes "\<not> es_hoja rz" "set cods \<subseteq> set (caminos rz)"
  shows "set xs \<subseteq> fst ` set cods \<Longrightarrow>
         \<exists>enc. codificar_texto xs cods = Inr enc \<and> (xs \<noteq> [] \<longrightarrow> enc \<noteq> []) \<and>
           (\<forall>resto out. descomprimir_loop rz rz (enc @ resto) out =
                         descomprimir_loop rz rz resto (out @ xs))"
proof (induction xs)
  case Nil
  show ?case by simp
next
  case (Cons x xs)
  from Cons.prems obtain p where p: "map_of cods x = Some p"
    by (metis list.set_intros(1) subsetD map_of_eq_None_iff not_Some_eq)
  then have "(x, p) \<in> set cods" by (rule map_of_SomeD)
  with assms(2) have xp: "(x, p) \<in> set (caminos rz)" by auto
  from Cons.IH Cons.prems obtain enc where
    enc: "codificar_texto xs cods = Inr enc"
         "\<forall>resto out. descomprimir_loop rz rz (enc @ resto) out =
                        descomprimir_loop rz rz resto (out @ xs)" by auto
  have "p \<noteq> []" using xp assms(1) by (rule caminos_no_vacio)
  moreover have "descomprimir_loop rz rz ((p @ enc) @ resto) out =
        descomprimir_loop rz rz resto (out @ x # xs)" for resto out
    using descomprimir_loop_camino [OF xp assms(1), of rz "enc @ resto" out] enc(2) by simp
  ultimately show ?case using p enc(1) by simp
qed

section \<open>Frequencies and the whole of comprimir\<close>

lemma contar_claves: "fst ` set (contar d c) = insert c (fst ` set d)"
  by (simp add: contar_def dom_update)

lemma contar_distinct: "distinct (map fst d) \<Longrightarrow> distinct (map fst (contar d c))"
  by (simp add: contar_def distinct_update)

lemma foldl_contar:
  "distinct (map fst d) \<Longrightarrow>
   distinct (map fst (foldl contar d xs)) \<and> fst ` set (foldl contar d xs) = fst ` set d \<union> set xs"
proof (induction xs arbitrary: d)
  case Nil
  then show ?case by simp
next
  case (Cons x xs)
  from Cons.IH [OF contar_distinct [OF Cons.prems, of x]] show ?case
    by (simp add: contar_claves)
qed

lemma Counter_claves: "distinct (map fst (Counter xs))" "fst ` set (Counter xs) = set xs"
  using foldl_contar [of "[]" xs] by (simp_all add: Counter_def)

lemma foldl_contar_replicate:
  "foldl contar [(a, k)] (replicate n a) = [(a, k + int n)]"
  by (induction n arbitrary: k) (simp_all add: contar_def)

lemma Counter_replicate: "0 < n \<Longrightarrow> Counter (replicate n a) = [(a, int n)]"
proof -
  assume "0 < n"
  then obtain m where n: "n = Suc m" by (cases n) auto
  have "Counter (replicate n a) = foldl contar [(a, 1)] (replicate m a)"
    by (simp add: n Counter_def contar_def)
  then show ?thesis using foldl_contar_replicate [of a 1 m] n by simp
qed

lemma generar_codigos_hoja:
  "raiz self = Some r \<Longrightarrow> es_hoja r \<Longrightarrow>
   generar_codigos self = ([(the (caracter r), ''0'')], self\<lparr>codigos := [(the (caracter r), ''0'')]\<rparr>)"
  by (simp add: generar_codigos_def Let_def)

lemma generar_codigos_interno:
  assumes "raiz self = Some r" "\<not> es_hoja r" "distinct (hojas r)"
  shows "generar_codigos self = (caminos r, self\<lparr>codigos := caminos r\<rparr>)"
proof -
  have "generar_codigos_recursivo r [] [] = dict_update [] (caminos r)"
    by (simp add: generar_codigos_recursivo_caminos)
  also have "\<dots> = caminos r"
    using dict_update_distinct [of "[]" "caminos r"] assms(3) by (simp add: map_fst_caminos)
  finally show ?thesis using assms(1,2) by (simp add: generar_codigos_def Let_def)
qed

lemma codificar_unico:
  "set xs \<subseteq> {a} \<Longrightarrow> codificar_texto xs [(a, ''0'')] = Inr (replicate (length xs) CHR ''0'')"
  by (induction xs) auto

text \<open>What a call of comprimir on a non-empty text does.\<close>

lemma comprimir_no_vacio:
  assumes "texto \<noteq> []"
  shows "\<exists>r cods enc.
           construir_desde_frecuencias (arbol self) (calcular_frecuencias texto)
             = (Inr (), (arbol self)\<lparr>raiz := Some r\<rparr>) \<and>
           generar_codigos ((arbol self)\<lparr>raiz := Some r\<rparr>)
             = (cods, (arbol self)\<lparr>raiz := Some r, codigos := cods\<rparr>) \<and>
           codificar_texto texto cods = Inr enc \<and> enc \<noteq> [] \<and>
           ((\<exists>a. r = NodoHuffman (Some a) (int (length texto)) None None \<and> cods = [(a, ''0'')] \<and>
                 texto = replicate (length texto) a \<and> enc = replicate (length texto) CHR ''0'')
            \<or> (caracter r = None \<and> completo r \<and> cods = caminos r \<and> distinct (hojas r) \<and>
                set (hojas r) = set texto \<and>
                (\<forall>resto out. descomprimir_loop r r (enc @ resto) out =
                              descomprimir_loop r r resto (out @ texto))))"
proof -
  let ?fr = "calcular_frecuencias texto"
  have fr: "?fr = Counter texto" using assms by (simp add: calcular_frecuencias_def)
  have claves: "distinct (map fst ?fr)" "fst ` set ?fr = set texto"
    using Counter_claves [of texto] fr by simp_all
  from claves(2) assms have ne: "?fr \<noteq> []" by auto
  show ?thesis
  proof (cases "length ?fr = 1")
    case True
    then obtain a k where ak: "?fr = [(a, k)]" by (cases ?fr) auto
    with claves(2) have st: "set texto = {a}" by simp
    then have rep: "texto = replicate (length texto) a"
      by (metis replicate_length_same singletonD)
    with assms have "Counter (replicate (length texto) a) = [(a, int (length texto))]"
      by (intro Counter_replicate) simp
    with rep fr ak have k: "k = int (length texto)" by simp
    let ?r = "NodoHuffman (Some a) (int (length texto)) None None"
    have c: "construir_desde_frecuencias (arbol self) ?fr = (Inr (), (arbol self)\<lparr>raiz := Some ?r\<rparr>)"
      using ak k construir_unico [of "arbol self" a k] by simp
    have g: "generar_codigos ((arbol self)\<lparr>raiz := Some ?r\<rparr>)
             = ([(a, ''0'')], (arbol self)\<lparr>raiz := Some ?r, codigos := [(a, ''0'')]\<rparr>)"
      using generar_codigos_hoja [of "(arbol self)\<lparr>raiz := Some ?r\<rparr>" ?r] by (simp add: es_hoja_def)
    have e: "codificar_texto texto [(a, ''0'')] = Inr (replicate (length texto) CHR ''0'')"
      using st by (intro codificar_unico) simp
    from c g e rep assms show ?thesis by auto
  next
    case False
    with ne have "1 < length ?fr" by (cases ?fr) auto
    from construir_general [OF this, of "arbol self"] obtain r where
      r: "construir_desde_frecuencias (arbol self) ?fr = (Inr (), (arbol self)\<lparr>raiz := Some r\<rparr>)"
         "completo r" "caracter r = None" "mset (hojas r) = mset (map fst ?fr)" by blast
    from r(4) claves have d: "distinct (hojas r)" and s: "set (hojas r) = set texto"
      by (metis mset_eq_imp_distinct_iff, metis mset_eq_setD set_map)
    have nh: "\<not> es_hoja r" using r(3) by (simp add: es_hoja_def)
    have g: "generar_codigos ((arbol self)\<lparr>raiz := Some r\<rparr>)
             = (caminos r, (arbol self)\<lparr>raiz := Some r, codigos := caminos r\<rparr>)"
      using generar_codigos_interno [of "(arbol self)\<lparr>raiz := Some r\<rparr>" r] nh d by simp
    have "set texto \<subseteq> fst ` set (caminos r)"
      using s map_fst_caminos [of r] by (metis set_map subset_refl)
    from codificar_descomprimir [OF nh subset_refl this] assms obtain enc where
      enc: "codificar_texto texto (caminos r) = Inr enc" "enc \<noteq> []"
           "\<forall>resto out. descomprimir_loop r r (enc @ resto) out =
                          descomprimir_loop r r resto (out @ texto)" by blast
    from r g enc d s show ?thesis by blast
  qed
qed

lemma comprimir_resultado:
  assumes "texto \<noteq> []"
    "construir_desde_frecuencias (arbol self) (calcular_frecuencias texto) = (Inr (), a1)"
    "generar_codigos a1 = (cods, a2)" "codificar_texto texto cods = Inr enc"
  shows "comprimir fl self texto t =
     (Inr (enc, cods, raiz a2,
           dict_update (generar_estadisticas fl texto enc (Flotante t)) (obtener_estadisticas fl a2)),
      self\<lparr>arbol := a2,
           estadisticas := dict_update (generar_estadisticas fl texto enc (Flotante t))
                             (obtener_estadisticas fl a2)\<rparr>)"
  using assms by (simp add: comprimir_def Let_def)

lemma comprimir_vacio:
  fixes self :: "('a, 'f) CompresorHuffman"
  shows "comprimir fl self [] t =
         (Inr ([], [], None, generar_estadisticas fl ([] :: 'a list) [] (Entero 0)), self)"
  by (simp add: comprimir_def)

lemma descomprimir_vacio:
  "descomprimir enc None t = Inr ([], [(''tiempo_descompresion'', Entero 0), (''exito'', Booleano False)])"
  "descomprimir [] rz t = Inr ([], [(''tiempo_descompresion'', Entero 0), (''exito'', Booleano False)])"
  by (simp_all add: descomprimir_def split: option.splits)

lemma calcular_frecuencias_replicate:
  "0 < n \<Longrightarrow> calcular_frecuencias (replicate n a) = [(a, int n)]"
  by (simp add: calcular_frecuencias_def Counter_replicate)

text \<open>On a full tree the cursor of the decoder always finds the child it moves to.\<close>

lemma completo_interno:
  "completo n \<Longrightarrow> \<not> es_hoja n \<Longrightarrow>
   \<exists>i d. izquierdo n = Some i \<and> derecho n = Some d \<and> completo i \<and> completo d"
  by (cases n) (auto simp: es_hoja_def split: option.splits)

lemma descomprimir_loop_total:
  "completo rz \<Longrightarrow> \<not> es_hoja rz \<Longrightarrow> completo n \<Longrightarrow> \<not> es_hoja n \<Longrightarrow>
   \<exists>res. descomprimir_loop rz n enc out = Inr res"
proof (induction enc arbitrary: n out)
  case Nil
  show ?case by simp
next
  case (Cons b enc)
  from completo_interno [OF Cons.prems(3,4)] obtain i d where
    h: "izquierdo n = Some i" "derecho n = Some d" "completo i" "completo d" by blast
  define m where "m = (if b = CHR ''0'' then i else d)"
  have m: "completo m" using h by (simp add: m_def)
  have sel: "(if b = CHR ''0'' then izquierdo n else derecho n) = Some m"
    using h by (simp add: m_def)
  show ?case
  proof (cases "es_hoja m")
    case True
    from Cons.IH [OF Cons.prems(1,2) Cons.prems(1,2), of "out @ [the (caracter m)]"]
    show ?thesis using sel True by simp
  next
    case False
    from Cons.IH [OF Cons.prems(1,2) m False, of out]
    show ?thesis using sel False by simp
  qed
qed

lemma descomprimir_total:
  assumes "completo r"
  shows "\<exists>res. descomprimir enc (Some r) t = Inr res"
proof (cases "es_hoja r")
  case True
  then show ?thesis by (simp add: descomprimir_def)
next
  case False
  from descomprimir_loop_total [OF assms False assms False, of enc "[]"]
  obtain res where "descomprimir_loop r r enc [] = Inr res" by blast
  then show ?thesis by (cases res) (simp add: descomprimir_def False)
qed

lemma construir_exito:
  assumes "construir_desde_frecuencias self frecs = (Inr (), self')"
  shows "\<exists>r. self' = self\<lparr>raiz := Some r\<rparr> \<and> completo r"
proof -
  have ne: "frecs \<noteq> []" using assms by (auto simp: construir_desde_frecuencias_def)
  show ?thesis
  proof (cases "length frecs = 1")
    case True
    then obtain c f where "frecs = [(c, f)]" by (cases frecs) auto
    with assms construir_unico [of self c f] show ?thesis by auto
  next
    case False
    with ne have "1 < length frecs" by (cases frecs) auto
    from construir_general [OF this, of self] assms show ?thesis by auto
  qed
qed


text \<open>The tree metrics that \<open>comprimir\<close> adds to the statistics use four keys of their own,
  and what is built depends on the table and not on the object that builds it.\<close>

lemma map_of_dict_update:
  "k \<notin> fst ` set otro \<Longrightarrow> map_of (dict_update d otro) k = map_of d k"
proof (induction otro arbitrary: d)
  case Nil
  show ?case by (simp add: dict_update_def)
next
  case (Cons x otro)
  obtain k' v where x: "x = (k', v)" by (cases x)
  have "dict_update d (x # otro) = dict_update (AList.update k' v d) otro"
    by (simp add: dict_update_def x)
  moreover have "map_of (dict_update (AList.update k' v d) otro) k = map_of (AList.update k' v d) k"
    using Cons.prems by (intro Cons.IH) simp
  moreover have "map_of (AList.update k' v d) k = map_of d k"
    using Cons.prems x by (simp add: update_conv')
  ultimately show ?case by simp
qed

lemma comprimir_estadisticas:
  assumes "fst (comprimir fl self texto t) = Inr (enc, cods, rz, est)"
  shows "\<exists>tv otro. est = dict_update (generar_estadisticas fl texto enc tv) otro \<and>
           fst ` set otro \<subseteq> {''altura'', ''num_hojas'', ''num_nodos_internos'',
                               ''longitud_promedio_codigo''}"
proof (cases "texto = []")
  case True
  with assms have "est = dict_update (generar_estadisticas fl texto enc (Entero 0)) []" "enc = []"
    by (simp_all add: comprimir_def dict_update_def)
  then show ?thesis by (intro exI [of _ "Entero 0"] exI [of _ "[]"]) simp
next
  case False
  obtain res a1 where c: "construir_desde_frecuencias (arbol self) (calcular_frecuencias texto) = (res, a1)"
    by (cases "construir_desde_frecuencias (arbol self) (calcular_frecuencias texto)")
  obtain cods' a2 where g: "generar_codigos a1 = (cods', a2)" by (cases "generar_codigos a1")
  from assms False c g have
    "est = dict_update (generar_estadisticas fl texto enc (Flotante t)) (obtener_estadisticas fl a2)"
    by (auto simp: comprimir_def Let_def split: sum.splits)
  moreover have "fst ` set (obtener_estadisticas fl a2) \<subseteq>
     {''altura'', ''num_hojas'', ''num_nodos_internos'', ''longitud_promedio_codigo''}"
    by (cases "raiz a2") (simp_all add: obtener_estadisticas_def)
  ultimately show ?thesis by blast
qed

lemma construir_independiente:
  "construir_desde_frecuencias s frecs = (Inr (), s1) \<Longrightarrow>
   construir_desde_frecuencias s' frecs = (Inr (), s'\<lparr>raiz := raiz s1\<rparr>)"
  by (auto simp: construir_desde_frecuencias_def Let_def
           split: if_splits option.splits sum.splits list.splits)

lemma generar_codigos_independiente:
  "generar_codigos (a\<lparr>raiz := Some r\<rparr>) = (cods, a\<lparr>raiz := Some r, codigos := cods\<rparr>) \<Longrightarrow>
   generar_codigos (b\<lparr>raiz := Some r\<rparr>) = (cods, b\<lparr>raiz := Some r, codigos := cods\<rparr>)"
  by (auto simp: generar_codigos_def Let_def split: if_splits)

text \<open>The digits that the decoder has read are the codes of the symbols it has emitted,
  followed by the path from the root to the cursor.\<close>

lemma codificar_descomprimir_loop:
  assumes "\<not> es_hoja rz" "set cods \<subseteq> set (caminos rz)"
  shows "codificar_texto xs cods = Inr enc \<Longrightarrow>
         descomprimir_loop rz rz (enc @ resto) out = descomprimir_loop rz rz resto (out @ xs)"
proof (induction xs arbitrary: enc out)
  case Nil
  then show ?case by simp
next
  case (Cons x xs)
  from Cons.prems obtain p enc' where
    p: "map_of cods x = Some p" and e: "codificar_texto xs cods = Inr enc'" and enc: "enc = p @ enc'"
    by (auto split: option.splits sum.splits)
  from p have "(x, p) \<in> set cods" by (rule map_of_SomeD)
  with assms(2) have xp: "(x, p) \<in> set (caminos rz)" by auto
  have "descomprimir_loop rz rz (p @ (enc' @ resto)) out =
        descomprimir_loop rz rz (enc' @ resto) (out @ [x])"
    by (rule descomprimir_loop_camino [OF xp assms(1)])
  also have "\<dots> = descomprimir_loop rz rz resto ((out @ [x]) @ xs)"
    by (rule Cons.IH [OF e])
  finally show ?case by (simp add: enc)
qed

lemma descomprimir_loop_prefijo:
  "(a, p @ q) \<in> set (caminos n) \<Longrightarrow> q \<noteq> [] \<Longrightarrow>
   \<exists>cur. descomprimir_loop rz n p out = Inr (out, cur) \<and> \<not> es_hoja cur \<and>
         (size cur < size n \<or> (p = [] \<and> cur = n))"
proof (induction n arbitrary: p rule: caminos.induct)
  case (1 c f izq der)
  let ?n = "NodoHuffman c f izq der"
  from "1.prems" have c: "c = None" by (cases c) auto
  then have nh: "\<not> es_hoja ?n" by (simp add: es_hoja_def)
  show ?case
  proof (cases p)
    case Nil
    with nh show ?thesis by simp
  next
    case (Cons b p')
    from "1.prems"(1) c Cons consider
      (izq) i where "izq = Some i" "(a, p' @ q) \<in> set (caminos i)" "b = CHR ''0''"
    | (der) d where "der = Some d" "(a, p' @ q) \<in> set (caminos d)" "b = CHR ''1''"
      by (auto split: option.splits)
    then show ?thesis
    proof cases
      case izq
      from izq(2) "1.prems"(2) have nhi: "\<not> es_hoja i"
        using caminos_hoja [of i] by auto
      from "1.IH"(1) [OF c izq(1) izq(2) "1.prems"(2)] obtain cur where
        cur: "descomprimir_loop rz i p' out = Inr (out, cur)" "\<not> es_hoja cur"
             "size cur < size i \<or> (p' = [] \<and> cur = i)" by blast
      have "size i < size ?n" using izq(1) by simp
      with cur(3) have "size cur < size ?n" by auto
      with cur(1,2) nhi izq(1,3) Cons show ?thesis by simp
    next
      case der
      from der(2) "1.prems"(2) have nhd: "\<not> es_hoja d"
        using caminos_hoja [of d] by auto
      from "1.IH"(2) [OF c der(1) der(2) "1.prems"(2)] obtain cur where
        cur: "descomprimir_loop rz d p' out = Inr (out, cur)" "\<not> es_hoja cur"
             "size cur < size d \<or> (p' = [] \<and> cur = d)" by blast
      have "size d < size ?n" using der(1) by simp
      with cur(3) have "size cur < size ?n" by auto
      with cur(1,2) nhd der(1,3) Cons show ?thesis by simp
    qed
  qed
qed

lemma caminos_hijo:
  assumes "\<not> es_hoja n" "(a, c) \<in> set (caminos m)"
  shows "izquierdo n = Some m \<Longrightarrow> (a, CHR ''0'' # c) \<in> set (caminos n)"
    and "derecho n = Some m \<Longrightarrow> (a, CHR ''1'' # c) \<in> set (caminos n)"
  using assms by (cases n; force simp: es_hoja_def split: option.splits)+

lemma completo_caminos: "completo n \<Longrightarrow> caminos n \<noteq> []"
  by (induction n rule: caminos.induct) (auto split: option.splits)

lemma descomprimir_loop_forma:
  assumes r: "completo r" "\<not> es_hoja r"
  shows "completo n \<Longrightarrow> \<not> es_hoja n \<Longrightarrow>
         (\<forall>a c. (a, c) \<in> set (caminos n) \<longrightarrow> (a, p0 @ c) \<in> set (caminos r)) \<Longrightarrow>
         (p0 = [] \<longrightarrow> n = r) \<Longrightarrow>
         set enc \<subseteq> {CHR ''0'', CHR ''1''} \<Longrightarrow>
         descomprimir_loop r n enc out0 = Inr (out, cur) \<Longrightarrow>
         \<exists>cs p xs. out = out0 @ xs \<and> p0 @ enc = concat cs @ p \<and>
           list_all2 (\<lambda>x c. (x, c) \<in> set (caminos r)) xs cs \<and>
           (\<forall>a c. (a, c) \<in> set (caminos cur) \<longrightarrow> (a, p @ c) \<in> set (caminos r)) \<and>
           completo cur \<and> \<not> es_hoja cur \<and> (p = [] \<longrightarrow> cur = r)"
proof (induction enc arbitrary: n p0 out0)
  case Nil
  then have "out = out0" "cur = n" by simp_all
  with Nil show ?case
    by (intro exI [of _ "[]"] exI [of _ p0]) simp
next
  case (Cons b enc)
  from completo_interno [OF Cons.prems(1,2)] obtain i d where
    h: "izquierdo n = Some i" "derecho n = Some d" "completo i" "completo d" by blast
  from Cons.prems(5) have b: "b = CHR ''0'' \<or> b = CHR ''1''" and encd: "set enc \<subseteq> {CHR ''0'', CHR ''1''}"
    by auto
  define m where "m = (if b = CHR ''0'' then i else d)"
  have m: "completo m" using h by (simp add: m_def)
  have sel: "(if b = CHR ''0'' then izquierdo n else derecho n) = Some m"
    using h by (simp add: m_def)
  have hijo: "(a, b # c) \<in> set (caminos n)" if "(a, c) \<in> set (caminos m)" for a c
    using caminos_hijo [OF Cons.prems(2) that] h b by (auto simp: m_def)
  show ?case
  proof (cases "es_hoja m")
    case True
    let ?a = "the (caracter m)"
    have "(?a, []) \<in> set (caminos m)" using caminos_hoja [OF True] by simp
    from hijo [OF this] Cons.prems(3) have cod: "(?a, p0 @ [b]) \<in> set (caminos r)" by blast
    from Cons.prems(6) sel True
    have l: "descomprimir_loop r r enc (out0 @ [?a]) = Inr (out, cur)" by simp
    from Cons.IH [OF r(1) r(2) _ _ encd l, of "[]"] obtain cs p xs where
      ih: "out = (out0 @ [?a]) @ xs" "[] @ enc = concat cs @ p"
          "list_all2 (\<lambda>x c. (x, c) \<in> set (caminos r)) xs cs"
          "\<forall>a c. (a, c) \<in> set (caminos cur) \<longrightarrow> (a, p @ c) \<in> set (caminos r)"
          "completo cur" "\<not> es_hoja cur" "p = [] \<longrightarrow> cur = r"
      by auto
    show ?thesis
      using ih cod
      by (intro exI [of _ "(p0 @ [b]) # cs"] exI [of _ p] exI [of _ "?a # xs"]) simp
  next
    case False
    from Cons.prems(6) sel False
    have l: "descomprimir_loop r m enc out0 = Inr (out, cur)" by simp
    have inv: "\<forall>a c. (a, c) \<in> set (caminos m) \<longrightarrow> (a, (p0 @ [b]) @ c) \<in> set (caminos r)"
      using hijo Cons.prems(3) by auto
    from Cons.IH [OF m False inv _ encd l] obtain cs p xs where
      ih: "out = out0 @ xs" "(p0 @ [b]) @ enc = concat cs @ p"
          "list_all2 (\<lambda>x c. (x, c) \<in> set (caminos r)) xs cs"
          "\<forall>a c. (a, c) \<in> set (caminos cur) \<longrightarrow> (a, p @ c) \<in> set (caminos r)"
          "completo cur" "\<not> es_hoja cur" "p = [] \<longrightarrow> cur = r"
      by auto
    show ?thesis
      using ih by (intro exI [of _ cs] exI [of _ p] exI [of _ xs]) simp
  qed
qed

section \<open>The claims\<close>

text \<open>
  C1 (round trip). For every finite text, the empty text and a text that repeats one symbol
  included, \<open>comprimir\<close> returns, and \<open>descomprimir\<close> applied to the encoded output and
  the tree of that same call returns exactly the text. This holds for every state of the
  compressor before the call and for every value of the clock.
\<close>

theorem ida_y_vuelta:
  "\<exists>enc cods rz est self'.
     comprimir fl self texto t = (Inr (enc, cods, rz, est), self') \<and>
     (\<exists>est'. descomprimir enc rz t' = Inr (texto, est'))"
proof (cases "texto = []")
  case True
  have "\<exists>est'. descomprimir [] None t' = Inr ([] :: 'a list, est' :: (string \<times> 'c valor) list)"
    by (simp add: descomprimir_vacio)
  with True show ?thesis by (simp add: comprimir_vacio)
next
  case False
  from comprimir_no_vacio [OF False, of self] obtain r cods enc where
    c: "construir_desde_frecuencias (arbol self) (calcular_frecuencias texto)
          = (Inr (), (arbol self)\<lparr>raiz := Some r\<rparr>)"
    and g: "generar_codigos ((arbol self)\<lparr>raiz := Some r\<rparr>)
          = (cods, (arbol self)\<lparr>raiz := Some r, codigos := cods\<rparr>)"
    and e: "codificar_texto texto cods = Inr enc" "enc \<noteq> []"
    and k: "(\<exists>a. r = NodoHuffman (Some a) (int (length texto)) None None \<and> cods = [(a, ''0'')] \<and>
                 texto = replicate (length texto) a \<and> enc = replicate (length texto) CHR ''0'')
            \<or> (caracter r = None \<and> completo r \<and> cods = caminos r \<and> distinct (hojas r) \<and>
                set (hojas r) = set texto \<and>
                (\<forall>resto out. descomprimir_loop r r (enc @ resto) out =
                              descomprimir_loop r r resto (out @ texto)))"
    by blast
  note res = comprimir_resultado [OF False c g e(1), of fl t]
  from k have "\<exists>est'. descomprimir enc (Some r) t' = Inr (texto, est')"
  proof
    assume "\<exists>a. r = NodoHuffman (Some a) (int (length texto)) None None \<and> cods = [(a, ''0'')] \<and>
                 texto = replicate (length texto) a \<and> enc = replicate (length texto) CHR ''0''"
    then obtain a where a: "r = NodoHuffman (Some a) (int (length texto)) None None"
      "texto = replicate (length texto) a" "enc = replicate (length texto) CHR ''0''" by blast
    have "length enc = length texto" using a(3) by (metis length_replicate)
    with a(1,2) e(2) show ?thesis by (simp add: descomprimir_def es_hoja_def)
  next
    assume h: "caracter r = None \<and> completo r \<and> cods = caminos r \<and> distinct (hojas r) \<and>
                set (hojas r) = set texto \<and>
                (\<forall>resto out. descomprimir_loop r r (enc @ resto) out =
                              descomprimir_loop r r resto (out @ texto))"
    then have "descomprimir_loop r r (enc @ []) [] = descomprimir_loop r r [] ([] @ texto)"
      by blast
    then have "descomprimir_loop r r enc [] = Inr (texto, r)" by simp
    with h e(2) show ?thesis by (simp add: descomprimir_def es_hoja_def)
  qed
  with res show ?thesis by simp
qed

text \<open>
  C5 (one distinct symbol). For a text that repeats one symbol \<open>n > 0\<close> times,
  \<open>comprimir\<close> returns the code book that maps the symbol to the one digit \<open>0\<close>, an
  encoded output of \<open>n\<close> digits \<open>0\<close>, and a tree that is a single leaf without children;
  \<open>descomprimir\<close> on that output and that tree returns the text.
\<close>

theorem un_solo_simbolo:
  assumes "0 < n"
  shows "(\<exists>est self'. comprimir fl self (replicate n a) t =
            (Inr (replicate n CHR ''0'', [(a, ''0'')],
                  Some (NodoHuffman (Some a) (int n) None None), est), self')) \<and>
         (\<exists>est'. descomprimir (replicate n CHR ''0'')
                   (Some (NodoHuffman (Some a) (int n) None None)) t' =
                 Inr (replicate n a, est'))"
proof
  let ?r = "NodoHuffman (Some a) (int n) None None"
  have ne: "replicate n a \<noteq> []" using assms by simp
  have c: "construir_desde_frecuencias (arbol self) (calcular_frecuencias (replicate n a))
           = (Inr (), (arbol self)\<lparr>raiz := Some ?r\<rparr>)"
    using assms by (simp add: calcular_frecuencias_replicate construir_unico)
  have g: "generar_codigos ((arbol self)\<lparr>raiz := Some ?r\<rparr>)
           = ([(a, ''0'')], (arbol self)\<lparr>raiz := Some ?r, codigos := [(a, ''0'')]\<rparr>)"
    using generar_codigos_hoja [of "(arbol self)\<lparr>raiz := Some ?r\<rparr>" ?r] by (simp add: es_hoja_def)
  have e: "codificar_texto (replicate n a) [(a, ''0'')] = Inr (replicate n CHR ''0'')"
    using codificar_unico [of "replicate n a" a] by (auto simp: set_replicate_conv_if)
  from comprimir_resultado [OF ne c g e, of fl t]
  show "\<exists>est self'. comprimir fl self (replicate n a) t =
            (Inr (replicate n CHR ''0'', [(a, ''0'')], Some ?r, est), self')"
    by simp
  show "\<exists>est'. descomprimir (replicate n CHR ''0'') (Some ?r) t' = Inr (replicate n a, est')"
    using assms by (simp add: descomprimir_def es_hoja_def)
qed

theorem un_solo_simbolo_witness:
  "(0 :: nat) < 5 \<and>
   (\<exists>est self'. comprimir exactas CompresorHuffman_init ''AAAAA'' 0 =
            (Inr (''00000'', [(CHR ''A'', ''0'')],
                  Some (NodoHuffman (Some CHR ''A'') 5 None None), est), self')) \<and>
   (\<exists>est'. descomprimir ''00000'' (Some (NodoHuffman (Some CHR ''A'') 5 None None)) (0 :: rat) =
           Inr (''AAAAA'', est'))"
proof -
  have h: "(0 :: nat) < 5" by simp
  have r: "replicate 5 x = [x, x, x, x, x]" for x :: char by (simp add: eval_nat_numeral)
  from un_solo_simbolo [OF h, of exactas CompresorHuffman_init "CHR ''A''" 0 0]
  show ?thesis by (simp add: r)
qed

text \<open>
  C6 (empty input). On the empty text \<open>comprimir\<close> returns an empty encoded output, an
  empty code book, no tree, and statistics whose eight entries are all 0, and leaves the
  compressor as it was. \<open>descomprimir\<close> returns the empty text when the tree is absent, and
  when the encoded text is empty.
\<close>

theorem entrada_vacia:
  fixes self :: "('a, 'f) CompresorHuffman" and rz :: "'a NodoHuffman option"
  shows "comprimir fl self [] t =
           (Inr ([], [], None,
                 [(''longitud_original'', Entero 0),
                  (''longitud_comprimida'', Entero 0),
                  (''bits_originales'', Entero 0),
                  (''bits_comprimidos'', Entero 0),
                  (''tasa_compresion'', Entero 0),
                  (''factor_compresion'', Entero 0),
                  (''bits_ahorrados'', Entero 0),
                  (''tiempo_compresion'', Entero 0)]), self) \<and>
         descomprimir enc (None :: 'a NodoHuffman option) t' =
           Inr ([], [(''tiempo_descompresion'', Entero 0), (''exito'', Booleano False)]) \<and>
         descomprimir [] rz t' =
           Inr ([], [(''tiempo_descompresion'', Entero 0), (''exito'', Booleano False)])"
  by (simp add: comprimir_vacio descomprimir_vacio generar_estadisticas_def)

text \<open>
  C7 (empty alphabet). \<open>construir_desde_frecuencias\<close> raises exactly when the table has
  no entry, and the exception is \<open>ValueError\<close>, raised before the object is touched: the
  object after the failed call is the object before it. For every table with at least one
  entry the call succeeds and sets the root to a tree built from the table: the tree is
  full, its leaves with their weights are exactly the entries of the table, the weight of
  every inner node is the sum of the weights of its children, so that the weight of the root
  is the sum of all frequencies, and the root is a leaf exactly when the table has one entry.
\<close>

theorem construir_vacio_sii_error:
  "((\<exists>e. fst (construir_desde_frecuencias self frecs) = Inl e) \<longleftrightarrow> frecs = []) \<and>
   (frecs = [] \<longrightarrow> construir_desde_frecuencias self frecs = (Inl ValueError, self)) \<and>
   (frecs \<noteq> [] \<longrightarrow>
      (\<exists>r. construir_desde_frecuencias self frecs = (Inr (), self\<lparr>raiz := Some r\<rparr>) \<and>
           completo r \<and> aditivo r \<and>
           mset (hojas_pesos r) = mset frecs \<and>
           mset (hojas r) = mset (map fst frecs) \<and>
           frecuencia r = sum_list (map snd frecs) \<and>
           (es_hoja r \<longleftrightarrow> length frecs = 1)))"
proof -
  have v: "frecs = [] \<Longrightarrow> construir_desde_frecuencias self frecs = (Inl ValueError, self)"
    by (simp add: construir_desde_frecuencias_def)
  have n: "\<exists>r. construir_desde_frecuencias self frecs = (Inr (), self\<lparr>raiz := Some r\<rparr>) \<and>
           completo r \<and> aditivo r \<and>
           mset (hojas_pesos r) = mset frecs \<and>
           mset (hojas r) = mset (map fst frecs) \<and>
           frecuencia r = sum_list (map snd frecs) \<and>
           (es_hoja r \<longleftrightarrow> length frecs = 1)"
    if "frecs \<noteq> []"
  proof (cases "length frecs = 1")
    case True
    then obtain c f where "frecs = [(c, f)]" by (cases frecs) auto
    then show ?thesis using construir_unico [of self c f]
      by (intro exI [of _ "NodoHuffman (Some c) f None None"]) (simp add: es_hoja_def)
  next
    case False
    with that have l: "1 < length frecs" by (cases frecs) auto
    from construir_general [OF l, of self] obtain r where
      r: "construir_desde_frecuencias self frecs = (Inr (), self\<lparr>raiz := Some r\<rparr>)"
         "completo r" "caracter r = None" "mset (hojas r) = mset (map fst frecs)" by blast
    from construir_general_pesos [OF l, of self] obtain r' where
      r': "construir_desde_frecuencias self frecs = (Inr (), self\<lparr>raiz := Some r'\<rparr>)"
          "aditivo r'" "mset (hojas_pesos r') = mset frecs" by blast
    from r(1) r'(1) have "raiz (self\<lparr>raiz := Some r\<rparr>) = raiz (self\<lparr>raiz := Some r'\<rparr>)"
      by simp
    then have rr: "r' = r" by simp
    have "sum_list (map snd (hojas_pesos r)) = sum_list (map snd frecs)"
      using r'(3) rr by (metis mset_map sum_mset_sum_list)
    then have w: "frecuencia r = sum_list (map snd frecs)"
      using frecuencia_aditivo [of r] r(2) r'(2) rr by simp
    from r r' rr w False show ?thesis by (auto simp: es_hoja_def)
  qed
  from v n show ?thesis by (cases "frecs = []") auto
qed

theorem construir_vacio_sii_error_witness:
  "construir_desde_frecuencias ArbolHuffman_init ([] :: (char \<times> int) list)
     = (Inl ValueError, ArbolHuffman_init) \<and>
   (\<exists>r. construir_desde_frecuencias ArbolHuffman_init [(CHR ''A'', 2), (CHR ''B'', 1)]
           = (Inr (), ArbolHuffman_init\<lparr>raiz := Some r\<rparr>) \<and>
        completo r \<and> aditivo r \<and>
        mset (hojas_pesos r) = mset [(CHR ''A'', 2), (CHR ''B'', 1)] \<and>
        mset (hojas r) = mset [CHR ''A'', CHR ''B''] \<and>
        frecuencia r = 3 \<and> \<not> es_hoja r)"
  using construir_vacio_sii_error [of ArbolHuffman_init "[] :: (char \<times> int) list"]
    construir_vacio_sii_error [of ArbolHuffman_init "[(CHR ''A'', 2), (CHR ''B'', 1)]"]
  by simp

text \<open>
  C10 (success flag). Whenever \<open>descomprimir\<close> returns, the entry \<open>exito\<close> of its
  statistics is \<open>False\<close> exactly when the encoded text is empty or the tree is absent, and
  \<open>True\<close> otherwise.
\<close>

theorem exito_descomprimir:
  assumes "descomprimir enc rz t = Inr (texto, est)"
  shows "map_of est ''exito'' = Some (Booleano (enc \<noteq> [] \<and> rz \<noteq> None))"
  using assms
  by (auto simp: descomprimir_def split: option.splits if_splits sum.splits)

theorem exito_descomprimir_witness:
  "descomprimir ''0'' (Some (NodoHuffman (Some CHR ''A'') 1 None None)) (0 :: rat) =
     Inr (''A'', [(''tiempo_descompresion'', Flotante 0),
                  (''longitud_decodificada'', Entero 1),
                  (''exito'', Booleano True)]) \<and>
   map_of [(''tiempo_descompresion'', Flotante (0 :: rat)),
           (''longitud_decodificada'', Entero 1),
           (''exito'', Booleano True)] ''exito'' = Some (Booleano True)"
proof -
  have h: "descomprimir ''0'' (Some (NodoHuffman (Some CHR ''A'') 1 None None)) (0 :: rat) =
     Inr (''A'', [(''tiempo_descompresion'', Flotante 0),
                  (''longitud_decodificada'', Entero 1),
                  (''exito'', Booleano True)])"
    by code_simp
  from exito_descomprimir [OF h] h show ?thesis by simp
qed

text \<open>
  C3 (prefix-free code book). For every non-empty text \<open>comprimir\<close> returns a code book
  in which each symbol occurs once, every code is a non-empty sequence of the digits \<open>0\<close>
  and \<open>1\<close>, and the code of a symbol is never a prefix of the code of a different symbol
  (so the codes of two different symbols differ).
\<close>

theorem codigos_libres_de_prefijo:
  assumes "texto \<noteq> []"
  shows "\<exists>enc cods rz est self'.
           comprimir fl self texto t = (Inr (enc, cods, rz, est), self') \<and>
           distinct (map fst cods) \<and>
           (\<forall>a p. (a, p) \<in> set cods \<longrightarrow> p \<noteq> [] \<and> set p \<subseteq> {CHR ''0'', CHR ''1''}) \<and>
           (\<forall>a p b q. (a, p) \<in> set cods \<and> (b, q) \<in> set cods \<and> a \<noteq> b \<longrightarrow> \<not> prefix p q)"
proof -
  from comprimir_no_vacio [OF assms, of self] obtain r cods enc where
    c: "construir_desde_frecuencias (arbol self) (calcular_frecuencias texto)
          = (Inr (), (arbol self)\<lparr>raiz := Some r\<rparr>)"
    and g: "generar_codigos ((arbol self)\<lparr>raiz := Some r\<rparr>)
          = (cods, (arbol self)\<lparr>raiz := Some r, codigos := cods\<rparr>)"
    and e: "codificar_texto texto cods = Inr enc"
    and k: "(\<exists>a. r = NodoHuffman (Some a) (int (length texto)) None None \<and> cods = [(a, ''0'')] \<and>
                 texto = replicate (length texto) a \<and> enc = replicate (length texto) CHR ''0'')
            \<or> (caracter r = None \<and> completo r \<and> cods = caminos r \<and> distinct (hojas r) \<and>
                set (hojas r) = set texto \<and>
                (\<forall>resto out. descomprimir_loop r r (enc @ resto) out =
                              descomprimir_loop r r resto (out @ texto)))"
    by blast
  note res = comprimir_resultado [OF assms c g e, of fl t]
  from k have "distinct (map fst cods) \<and>
           (\<forall>a p. (a, p) \<in> set cods \<longrightarrow> p \<noteq> [] \<and> set p \<subseteq> {CHR ''0'', CHR ''1''}) \<and>
           (\<forall>a p b q. (a, p) \<in> set cods \<and> (b, q) \<in> set cods \<and> a \<noteq> b \<longrightarrow> \<not> prefix p q)"
  proof
    assume "\<exists>a. r = NodoHuffman (Some a) (int (length texto)) None None \<and> cods = [(a, ''0'')] \<and>
                 texto = replicate (length texto) a \<and> enc = replicate (length texto) CHR ''0''"
    then obtain a where "cods = [(a, ''0'')]" by blast
    then show ?thesis by simp
  next
    assume h: "caracter r = None \<and> completo r \<and> cods = caminos r \<and> distinct (hojas r) \<and>
                set (hojas r) = set texto \<and>
                (\<forall>resto out. descomprimir_loop r r (enc @ resto) out =
                              descomprimir_loop r r resto (out @ texto))"
    then have nh: "\<not> es_hoja r" and cods: "cods = caminos r" and d: "distinct (hojas r)"
      by (simp_all add: es_hoja_def)
    have p1: "distinct (map fst cods)" using cods d by (simp add: map_fst_caminos)
    have p2: "p \<noteq> [] \<and> set p \<subseteq> {CHR ''0'', CHR ''1''}" if "(a, p) \<in> set cods" for a p
      using that cods caminos_no_vacio [of a p r, OF _ nh] caminos_digitos [of a p r] by simp
    have p3: "\<not> prefix p q" if "(a, p) \<in> set cods" "(b, q) \<in> set cods" "a \<noteq> b" for a p b q
      using that cods caminos_prefijo [of a p r b q, OF _ _ _ d] by auto
    have p4: "\<forall>a p b q. (a, p) \<in> set cods \<and> (b, q) \<in> set cods \<and> a \<noteq> b \<longrightarrow> \<not> prefix p q"
    proof (intro allI impI)
      fix a p b q
      assume "(a, p) \<in> set cods \<and> (b, q) \<in> set cods \<and> a \<noteq> b"
      then show "\<not> prefix p q" using p3 [of a p b q] by simp
    qed
    from p1 p2 p4 show ?thesis by simp
  qed
  with res show ?thesis by simp
qed

theorem codigos_libres_de_prefijo_witness:
  "''AABBC'' \<noteq> [] \<and>
   (\<exists>enc rz est self'.
      comprimir exactas CompresorHuffman_init ''AABBC'' 0 =
        (Inr (enc, [(CHR ''A'', ''0''), (CHR ''C'', ''10''), (CHR ''B'', ''11'')], rz, est), self')) \<and>
   \<not> prefix ''0'' ''10'' \<and> \<not> prefix ''10'' ''11'' \<and> \<not> prefix ''11'' ''0''"
proof -
  have h: "''AABBC'' \<noteq> []" by simp
  from codigos_libres_de_prefijo [OF h, of exactas CompresorHuffman_init 0]
  obtain enc cods rz est self' where
    c: "comprimir exactas CompresorHuffman_init ''AABBC'' 0 = (Inr (enc, cods, rz, est), self')"
    and p: "\<forall>a p b q. (a, p) \<in> set cods \<and> (b, q) \<in> set cods \<and> a \<noteq> b \<longrightarrow> \<not> prefix p q"
    by blast
  have "fst (snd (projr (fst (comprimir exactas CompresorHuffman_init ''AABBC'' 0)))) =
        [(CHR ''A'', ''0''), (CHR ''C'', ''10''), (CHR ''B'', ''11'')]"
    by code_simp
  with c have cods: "cods = [(CHR ''A'', ''0''), (CHR ''C'', ''10''), (CHR ''B'', ''11'')]" by simp
  have q1: "\<not> prefix ''0'' ''10''"
    using p [rule_format, of "CHR ''A''" "''0''" "CHR ''C''" "''10''"] cods by simp
  have q2: "\<not> prefix ''10'' ''11''"
    using p [rule_format, of "CHR ''C''" "''10''" "CHR ''B''" "''11''"] cods by simp
  have q3: "\<not> prefix ''11'' ''0''"
    using p [rule_format, of "CHR ''B''" "''11''" "CHR ''A''" "''0''"] cods by simp
  from c cods have "\<exists>enc rz est self'.
      comprimir exactas CompresorHuffman_init ''AABBC'' 0 =
        (Inr (enc, [(CHR ''A'', ''0''), (CHR ''C'', ''10''), (CHR ''B'', ''11'')], rz, est), self')"
    by simp
  with h q1 q2 q3 show ?thesis by simp
qed

text \<open>
  C9 (full tree, total decoding). The root set by a successful
  \<open>construir_desde_frecuencias\<close> is a full tree: every node without a character has both
  children. On such a tree \<open>descomprimir\<close> returns for every string of digits: the cursor
  never moves to a missing child, so the \<open>AttributeError\<close> of the model is never raised.
\<close>

theorem arbol_completo_decodificacion_total:
  assumes "construir_desde_frecuencias self frecs = (Inr (), self')"
  shows "\<exists>r. raiz self' = Some r \<and> completo r \<and>
             (\<forall>enc (t :: 'f). \<exists>res. descomprimir enc (Some r) t = Inr res)"
proof -
  from construir_exito [OF assms] obtain r where r: "self' = self\<lparr>raiz := Some r\<rparr>" "completo r"
    by blast
  have "\<forall>enc (t :: 'f). \<exists>res. descomprimir enc (Some r) t = Inr res"
    by (intro allI descomprimir_total r(2))
  with r show ?thesis by simp
qed

theorem arbol_completo_decodificacion_total_witness:
  "construir_desde_frecuencias ArbolHuffman_init [(CHR ''A'', 2), (CHR ''B'', 2), (CHR ''C'', 1)] =
     (Inr (), \<lparr>raiz = Some (NodoHuffman None 5 (Some (NodoHuffman (Some CHR ''A'') 2 None None))
         (Some (NodoHuffman None 3
             (Some (NodoHuffman (Some CHR ''C'') 1 None None))
             (Some (NodoHuffman (Some CHR ''B'') 2 None None))))), codigos = []\<rparr>) \<and>
   (\<exists>r. r = NodoHuffman None 5 (Some (NodoHuffman (Some CHR ''A'') 2 None None))
         (Some (NodoHuffman None 3
             (Some (NodoHuffman (Some CHR ''C'') 1 None None))
             (Some (NodoHuffman (Some CHR ''B'') 2 None None)))) \<and> completo r \<and>
        (\<forall>enc (t :: rat). \<exists>res. descomprimir enc (Some r) t = Inr res))"
proof -
  have h: "construir_desde_frecuencias ArbolHuffman_init [(CHR ''A'', 2), (CHR ''B'', 2), (CHR ''C'', 1)] =
     (Inr (), \<lparr>raiz = Some (NodoHuffman None 5 (Some (NodoHuffman (Some CHR ''A'') 2 None None))
         (Some (NodoHuffman None 3
             (Some (NodoHuffman (Some CHR ''C'') 1 None None))
             (Some (NodoHuffman (Some CHR ''B'') 2 None None))))), codigos = []\<rparr>)"
    by code_simp
  from arbol_completo_decodificacion_total [OF h, where 'f = rat] h show ?thesis by simp
qed

text \<open>
  C8 (compression metrics). Whenever \<open>comprimir\<close> returns, for a text of \<open>n\<close> symbols and
  an encoded output of \<open>m\<close> digits, its statistics hold \<open>bits_originales = n * 8\<close>;
  \<open>tasa_compresion\<close> is the float \<open>((n * 8 - m) / (n * 8)) * 100\<close>, and the integer 0
  when \<open>n * 8\<close> is 0; \<open>factor_compresion\<close> is the float \<open>(n * 8) / m\<close> when \<open>m > 0\<close> and
  the integer 0 when \<open>m = 0\<close>; \<open>bits_ahorrados\<close> is the integer \<open>n * 8 - m\<close>. The
  difference is not clamped: \<open>generar_estadisticas\<close> on a text of one symbol and nine
  digits gives \<open>- 1\<close>. The division and the multiplication are the float operations
  \<open>truediv\<close> and \<open>por\<close> of the model.
\<close>

theorem estadisticas_de_compresion:
  assumes "fst (comprimir fl self texto t) = Inr (enc, cods, rz, est)"
  shows "map_of est ''bits_originales'' = Some (Entero (int (length texto) * 8)) \<and>
         map_of est ''tasa_compresion'' =
           Some (if int (length texto) * 8 > 0
                 then Flotante (por fl (truediv fl (int (length texto) * 8 - int (length enc))
                                                   (int (length texto) * 8)) 100)
                 else Entero 0) \<and>
         map_of est ''factor_compresion'' =
           Some (if int (length enc) > 0
                 then Flotante (truediv fl (int (length texto) * 8) (int (length enc)))
                 else Entero 0) \<and>
         map_of est ''bits_ahorrados'' = Some (Entero (int (length texto) * 8 - int (length enc))) \<and>
         map_of (generar_estadisticas fl [a] (replicate 9 CHR ''0'') tp) ''bits_ahorrados'' =
           Some (Entero (- 1))"
proof -
  from comprimir_estadisticas [OF assms] obtain tv otro where
    est: "est = dict_update (generar_estadisticas fl texto enc tv) otro"
    and k: "fst ` set otro \<subseteq> {''altura'', ''num_hojas'', ''num_nodos_internos'',
                               ''longitud_promedio_codigo''}" by blast
  have e0: "texto = [] \<Longrightarrow> enc = []"
    using assms by (simp add: comprimir_def)
  have k1: "''bits_originales'' \<notin> fst ` set otro" using k by auto
  have k2: "''tasa_compresion'' \<notin> fst ` set otro" using k by auto
  have k3: "''factor_compresion'' \<notin> fst ` set otro" using k by auto
  have k4: "''bits_ahorrados'' \<notin> fst ` set otro" using k by auto
  have 1: "map_of est ''bits_originales'' = Some (Entero (int (length texto) * 8))"
    unfolding est map_of_dict_update [OF k1]
    by (simp add: generar_estadisticas_def Let_def)
  have 2: "map_of est ''tasa_compresion'' =
           Some (if int (length texto) * 8 > 0
                 then Flotante (por fl (truediv fl (int (length texto) * 8 - int (length enc))
                                                   (int (length texto) * 8)) 100)
                 else Entero 0)"
    unfolding est map_of_dict_update [OF k2]
    by (simp add: generar_estadisticas_def Let_def)
  have 3: "map_of est ''factor_compresion'' =
           Some (if int (length enc) > 0
                 then Flotante (truediv fl (int (length texto) * 8) (int (length enc)))
                 else Entero 0)"
    unfolding est map_of_dict_update [OF k3]
    using e0 by (simp add: generar_estadisticas_def Let_def)
  have 4: "map_of est ''bits_ahorrados'' = Some (Entero (int (length texto) * 8 - int (length enc)))"
    unfolding est map_of_dict_update [OF k4]
    using e0 by (simp add: generar_estadisticas_def Let_def)
  have 5: "map_of (generar_estadisticas fl [a] (replicate 9 CHR ''0'') tp) ''bits_ahorrados'' =
           Some (Entero (- 1))"
    by (simp add: generar_estadisticas_def Let_def)
  from 1 2 3 4 5 show ?thesis by simp
qed

theorem estadisticas_de_compresion_witness:
  "fst (comprimir exactas CompresorHuffman_init ''AABBC'' 0) =
     Inr (''00111110'',
          [(CHR ''A'', ''0''), (CHR ''C'', ''10''), (CHR ''B'', ''11'')],
          Some (NodoHuffman None 5 (Some (NodoHuffman (Some CHR ''A'') 2 None None))
            (Some (NodoHuffman None 3
               (Some (NodoHuffman (Some CHR ''C'') 1 None None))
               (Some (NodoHuffman (Some CHR ''B'') 2 None None))))),
          [(''longitud_original'', Entero 5),
           (''longitud_comprimida'', Entero 8),
           (''bits_originales'', Entero 40),
           (''bits_comprimidos'', Entero 8),
           (''tasa_compresion'', Flotante 80),
           (''factor_compresion'', Flotante 5),
           (''bits_ahorrados'', Entero 32),
           (''tiempo_compresion'', Flotante 0),
           (''altura'', Entero 2),
           (''num_hojas'', Entero 3),
           (''num_nodos_internos'', Entero 2),
           (''longitud_promedio_codigo'', Flotante (5 / 3))]) \<and>
   por exactas (truediv exactas (5 * 8 - 8) (5 * 8)) 100 = 80 \<and>
   truediv exactas (5 * 8) 8 = 5"
proof -
  have h: "fst (comprimir exactas CompresorHuffman_init ''AABBC'' 0) =
     Inr (''00111110'',
          [(CHR ''A'', ''0''), (CHR ''C'', ''10''), (CHR ''B'', ''11'')],
          Some (NodoHuffman None 5 (Some (NodoHuffman (Some CHR ''A'') 2 None None))
            (Some (NodoHuffman None 3
               (Some (NodoHuffman (Some CHR ''C'') 1 None None))
               (Some (NodoHuffman (Some CHR ''B'') 2 None None))))),
          [(''longitud_original'', Entero 5),
           (''longitud_comprimida'', Entero 8),
           (''bits_originales'', Entero 40),
           (''bits_comprimidos'', Entero 8),
           (''tasa_compresion'', Flotante 80),
           (''factor_compresion'', Flotante 5),
           (''bits_ahorrados'', Entero 32),
           (''tiempo_compresion'', Flotante 0),
           (''altura'', Entero 2),
           (''num_hojas'', Entero 3),
           (''num_nodos_internos'', Entero 2),
           (''longitud_promedio_codigo'', Flotante (5 / 3))])"
    by code_simp
  from estadisticas_de_compresion [OF h, where a = "CHR ''A''" and tp = "Entero 0"] h
  show ?thesis by simp
qed

text \<open>
  C2 (truncated code), as the claim states it, fails. With the tree built for the text
  \<open>AABBC\<close>, whose root is not a leaf, the digits \<open>01\<close> decode \<open>A\<close> and leave the cursor at
  the internal node above \<open>C\<close> and \<open>B\<close>; \<open>descomprimir\<close> does not fail: it returns \<open>A\<close>
  with \<open>exito = True\<close>.
\<close>

theorem codigo_truncado_contraejemplo:
  "\<not> es_hoja (NodoHuffman None 5 (Some (NodoHuffman (Some CHR ''A'') 2 None None))
       (Some (NodoHuffman None 3
          (Some (NodoHuffman (Some CHR ''C'') 1 None None))
          (Some (NodoHuffman (Some CHR ''B'') 2 None None))))) \<and>
   descomprimir_loop
     (NodoHuffman None 5 (Some (NodoHuffman (Some CHR ''A'') 2 None None))
       (Some (NodoHuffman None 3
          (Some (NodoHuffman (Some CHR ''C'') 1 None None))
          (Some (NodoHuffman (Some CHR ''B'') 2 None None)))))
     (NodoHuffman None 5 (Some (NodoHuffman (Some CHR ''A'') 2 None None))
       (Some (NodoHuffman None 3
          (Some (NodoHuffman (Some CHR ''C'') 1 None None))
          (Some (NodoHuffman (Some CHR ''B'') 2 None None)))))
     ''01'' [] =
     Inr (''A'', NodoHuffman None 3
          (Some (NodoHuffman (Some CHR ''C'') 1 None None))
          (Some (NodoHuffman (Some CHR ''B'') 2 None None))) \<and>
   \<not> es_hoja (NodoHuffman None 3
          (Some (NodoHuffman (Some CHR ''C'') 1 None None))
          (Some (NodoHuffman (Some CHR ''B'') 2 None None))) \<and>
   descomprimir ''01''
     (Some (NodoHuffman None 5 (Some (NodoHuffman (Some CHR ''A'') 2 None None))
       (Some (NodoHuffman None 3
          (Some (NodoHuffman (Some CHR ''C'') 1 None None))
          (Some (NodoHuffman (Some CHR ''B'') 2 None None)))))) (0 :: rat) =
     Inr (''A'', [(''tiempo_descompresion'', Flotante 0),
                  (''longitud_decodificada'', Entero 1),
                  (''exito'', Booleano True)])"
  by code_simp

text \<open>
  C2, amended. For every tree whose root is not a leaf, a text that ends in the middle of a
  code is decoded without an exception, and the incomplete code is dropped. In one
  direction: the codes of any symbols \<open>xs\<close>, followed by a non-empty proper prefix \<open>p\<close> of
  a code, leave the cursor at a node that is neither a leaf nor the root, and
  \<open>descomprimir\<close> returns exactly \<open>xs\<close>, with their number and \<open>exito = True\<close>. In the other
  direction, on a full tree: whenever consuming all digits of a text of \<open>0\<close> and \<open>1\<close> leaves
  the cursor at a node other than the root, \<open>descomprimir\<close> returns symbols \<open>out\<close> with
  \<open>exito = True\<close>, and the text is the codes of \<open>out\<close>, one after the other, followed by a
  non-empty proper prefix of a code.
\<close>

theorem codigo_truncado_devuelve:
  assumes "\<not> es_hoja r"
  shows "(codificar_texto xs (caminos r) = Inr enc0 \<and> (a, p @ q) \<in> set (caminos r) \<and>
          p \<noteq> [] \<and> q \<noteq> [] \<longrightarrow>
            (\<exists>cur. descomprimir_loop r r (enc0 @ p) [] = Inr (xs, cur) \<and>
                   \<not> es_hoja cur \<and> cur \<noteq> r) \<and>
            descomprimir (enc0 @ p) (Some r) t =
              Inr (xs, [(''tiempo_descompresion'', Flotante t),
                        (''longitud_decodificada'', Entero (int (length xs))),
                        (''exito'', Booleano True)])) \<and>
         (completo r \<and> set enc \<subseteq> {CHR ''0'', CHR ''1''} \<and>
          descomprimir_loop r r enc [] = Inr (out, cur') \<and> cur' \<noteq> r \<longrightarrow>
            descomprimir enc (Some r) t =
              Inr (out, [(''tiempo_descompresion'', Flotante t),
                         (''longitud_decodificada'', Entero (int (length out))),
                         (''exito'', Booleano True)]) \<and>
            (\<exists>cs p' a' q'. enc = concat cs @ p' \<and>
               list_all2 (\<lambda>x c. (x, c) \<in> set (caminos r)) out cs \<and>
               p' \<noteq> [] \<and> q' \<noteq> [] \<and> (a', p' @ q') \<in> set (caminos r)))"
proof (intro conjI impI)
  assume h: "codificar_texto xs (caminos r) = Inr enc0 \<and> (a, p @ q) \<in> set (caminos r) \<and>
             p \<noteq> [] \<and> q \<noteq> []"
  have e: "descomprimir_loop r r (enc0 @ p) [] = descomprimir_loop r r p xs"
    using codificar_descomprimir_loop [OF assms subset_refl, of xs enc0 p "[]"] h by simp
  from h descomprimir_loop_prefijo [of a p q r r xs] obtain cur where
    cur: "descomprimir_loop r r p xs = Inr (xs, cur)" "\<not> es_hoja cur"
         "size cur < size r \<or> (p = [] \<and> cur = r)" by blast
  from cur(3) h have ne: "cur \<noteq> r" by auto
  from e cur ne
  show "\<exists>cur. descomprimir_loop r r (enc0 @ p) [] = Inr (xs, cur) \<and> \<not> es_hoja cur \<and> cur \<noteq> r"
    by auto
  from h have "enc0 @ p \<noteq> []" by simp
  with e cur(1) assms
  show "descomprimir (enc0 @ p) (Some r) t =
          Inr (xs, [(''tiempo_descompresion'', Flotante t),
                    (''longitud_decodificada'', Entero (int (length xs))),
                    (''exito'', Booleano True)])"
    by (simp add: descomprimir_def)
next
  assume h: "completo r \<and> set enc \<subseteq> {CHR ''0'', CHR ''1''} \<and>
             descomprimir_loop r r enc [] = Inr (out, cur') \<and> cur' \<noteq> r"
  then have "enc \<noteq> []" by auto
  with h assms
  show "descomprimir enc (Some r) t =
          Inr (out, [(''tiempo_descompresion'', Flotante t),
                     (''longitud_decodificada'', Entero (int (length out))),
                     (''exito'', Booleano True)])"
    by (simp add: descomprimir_def)
  from h have c: "completo r" and d: "set enc \<subseteq> {CHR ''0'', CHR ''1''}"
    and l: "descomprimir_loop r r enc [] = Inr (out, cur')" and ne: "cur' \<noteq> r" by simp_all
  from descomprimir_loop_forma [OF c assms c assms _ _ d l, of "[]"] obtain cs p' xs' where
    f: "out = [] @ xs'" "[] @ enc = concat cs @ p'"
       "list_all2 (\<lambda>x c. (x, c) \<in> set (caminos r)) xs' cs"
       "\<forall>a c. (a, c) \<in> set (caminos cur') \<longrightarrow> (a, p' @ c) \<in> set (caminos r)"
       "completo cur'" "\<not> es_hoja cur'" "p' = [] \<longrightarrow> cur' = r"
    by auto
  from f(7) ne have p': "p' \<noteq> []" by auto
  from completo_caminos [OF f(5)] obtain a' q' where aq: "(a', q') \<in> set (caminos cur')"
    by (cases "caminos cur'") auto
  then have q': "q' \<noteq> []" using f(6) by (rule caminos_no_vacio)
  from aq f(4) have "(a', p' @ q') \<in> set (caminos r)" by blast
  with f(1,2,3) p' q'
  show "\<exists>cs p' a' q'. enc = concat cs @ p' \<and>
          list_all2 (\<lambda>x c. (x, c) \<in> set (caminos r)) out cs \<and>
          p' \<noteq> [] \<and> q' \<noteq> [] \<and> (a', p' @ q') \<in> set (caminos r)"
    by (intro exI [of _ cs] exI [of _ p'] exI [of _ a'] exI [of _ q']) simp
qed

theorem codigo_truncado_devuelve_witness:
  "\<not> es_hoja (NodoHuffman None 5 (Some (NodoHuffman (Some CHR ''A'') 2 None None))
       (Some (NodoHuffman None 3
          (Some (NodoHuffman (Some CHR ''C'') 1 None None))
          (Some (NodoHuffman (Some CHR ''B'') 2 None None))))) \<and>
   codificar_texto ''AABB''
     (caminos (NodoHuffman None 5 (Some (NodoHuffman (Some CHR ''A'') 2 None None))
       (Some (NodoHuffman None 3
          (Some (NodoHuffman (Some CHR ''C'') 1 None None))
          (Some (NodoHuffman (Some CHR ''B'') 2 None None)))))) = Inr ''001111'' \<and>
   (CHR ''C'', ''1'' @ ''0'') \<in> set
     (caminos (NodoHuffman None 5 (Some (NodoHuffman (Some CHR ''A'') 2 None None))
       (Some (NodoHuffman None 3
          (Some (NodoHuffman (Some CHR ''C'') 1 None None))
          (Some (NodoHuffman (Some CHR ''B'') 2 None None)))))) \<and>
   descomprimir_loop
     (NodoHuffman None 5 (Some (NodoHuffman (Some CHR ''A'') 2 None None))
       (Some (NodoHuffman None 3
          (Some (NodoHuffman (Some CHR ''C'') 1 None None))
          (Some (NodoHuffman (Some CHR ''B'') 2 None None)))))
     (NodoHuffman None 5 (Some (NodoHuffman (Some CHR ''A'') 2 None None))
       (Some (NodoHuffman None 3
          (Some (NodoHuffman (Some CHR ''C'') 1 None None))
          (Some (NodoHuffman (Some CHR ''B'') 2 None None)))))
     ''0011111'' [] =
     Inr (''AABB'', NodoHuffman None 3
          (Some (NodoHuffman (Some CHR ''C'') 1 None None))
          (Some (NodoHuffman (Some CHR ''B'') 2 None None))) \<and>
   descomprimir ''0011111''
     (Some (NodoHuffman None 5 (Some (NodoHuffman (Some CHR ''A'') 2 None None))
       (Some (NodoHuffman None 3
          (Some (NodoHuffman (Some CHR ''C'') 1 None None))
          (Some (NodoHuffman (Some CHR ''B'') 2 None None)))))) (7 :: rat) =
     Inr (''AABB'', [(''tiempo_descompresion'', Flotante 7),
                     (''longitud_decodificada'', Entero 4),
                     (''exito'', Booleano True)]) \<and>
   (\<exists>cs p' a' q'. ''0011111'' = concat cs @ p' \<and>
      list_all2 (\<lambda>x c. (x, c) \<in> set
        (caminos (NodoHuffman None 5 (Some (NodoHuffman (Some CHR ''A'') 2 None None))
          (Some (NodoHuffman None 3
             (Some (NodoHuffman (Some CHR ''C'') 1 None None))
             (Some (NodoHuffman (Some CHR ''B'') 2 None None))))))) ''AABB'' cs \<and>
      p' \<noteq> [] \<and> q' \<noteq> [] \<and>
      (a', p' @ q') \<in> set
        (caminos (NodoHuffman None 5 (Some (NodoHuffman (Some CHR ''A'') 2 None None))
          (Some (NodoHuffman None 3
             (Some (NodoHuffman (Some CHR ''C'') 1 None None))
             (Some (NodoHuffman (Some CHR ''B'') 2 None None)))))))"
proof -
  let ?n = "NodoHuffman None 3
          (Some (NodoHuffman (Some CHR ''C'') 1 None None))
          (Some (NodoHuffman (Some CHR ''B'') 2 None None))"
  let ?r = "NodoHuffman None 5 (Some (NodoHuffman (Some CHR ''A'') 2 None None)) (Some ?n)"
  have h0: "\<not> es_hoja ?r" by (simp add: es_hoja_def)
  have h1: "codificar_texto ''AABB'' (caminos ?r) = Inr ''001111''" by code_simp
  have h2: "(CHR ''C'', ''1'' @ ''0'') \<in> set (caminos ?r)" by simp
  have h3: "completo ?r" by simp
  have h4: "descomprimir_loop ?r ?r ''0011111'' [] = Inr (''AABB'', ?n)" by code_simp
  have h5: "?n \<noteq> ?r" by simp
  have h6: "set ''0011111'' \<subseteq> {CHR ''0'', CHR ''1''}" by simp
  note t = codigo_truncado_devuelve [OF h0, where xs = "''AABB''" and ?enc0.0 = "''001111''"
      and a = "CHR ''C''" and p = "''1''" and q = "''0''" and t = "7 :: rat"
      and enc = "''0011111''" and out = "''AABB''" and cur' = ?n]
  from t h1 h2 have b: "descomprimir (''001111'' @ ''1'') (Some ?r) (7 :: rat) =
              Inr (''AABB'', [(''tiempo_descompresion'', Flotante 7),
                        (''longitud_decodificada'', Entero (int (length ''AABB''))),
                        (''exito'', Booleano True)])"
    by simp
  from t h3 h4 h5 h6 have a: "\<exists>cs p' a' q'. ''0011111'' = concat cs @ p' \<and>
               list_all2 (\<lambda>x c. (x, c) \<in> set (caminos ?r)) ''AABB'' cs \<and>
               p' \<noteq> [] \<and> q' \<noteq> [] \<and> (a', p' @ q') \<in> set (caminos ?r)"
    by blast
  from h0 h1 h2 h4 a b show ?thesis by simp
qed

text \<open>
  C4 (tie-breaking), as the claim states it, fails: equal weights are not resolved by a
  secondary key. With four symbols of weight 1 pushed in the order \<open>A, B, C, D\<close>, the
  second pop returns \<open>C\<close> while \<open>B\<close>, pushed earlier and smaller as a symbol, stays in the
  heap, and the tree pairs \<open>A\<close> with \<open>C\<close> and \<open>B\<close> with \<open>D\<close>. With three symbols of weight 1
  pushed in the order \<open>A, B, C\<close>, the second pop returns \<open>B\<close>, before \<open>C\<close>. The order of
  \<open>B\<close> and \<open>C\<close> therefore follows their positions in the heap, not the insertion order and
  not an order on the symbols.
\<close>

theorem desempate_contraejemplo:
  "push_hojas [] [(CHR ''A'', 1), (CHR ''B'', 1), (CHR ''C'', 1), (CHR ''D'', 1)] =
     Inr [NodoHuffman (Some CHR ''A'') 1 None None, NodoHuffman (Some CHR ''B'') 1 None None,
          NodoHuffman (Some CHR ''C'') 1 None None, NodoHuffman (Some CHR ''D'') 1 None None] \<and>
   heappop [NodoHuffman (Some CHR ''A'') 1 None None, NodoHuffman (Some CHR ''B'') 1 None None,
            NodoHuffman (Some CHR ''C'') 1 None None, NodoHuffman (Some CHR ''D'') 1 None None] =
     Inr (NodoHuffman (Some CHR ''A'') 1 None None,
          [NodoHuffman (Some CHR ''C'') 1 None None, NodoHuffman (Some CHR ''B'') 1 None None,
           NodoHuffman (Some CHR ''D'') 1 None None]) \<and>
   heappop [NodoHuffman (Some CHR ''C'') 1 None None, NodoHuffman (Some CHR ''B'') 1 None None,
            NodoHuffman (Some CHR ''D'') 1 None None] =
     Inr (NodoHuffman (Some CHR ''C'') 1 None None,
          [NodoHuffman (Some CHR ''B'') 1 None None, NodoHuffman (Some CHR ''D'') 1 None None]) \<and>
   push_hojas [] [(CHR ''A'', 1), (CHR ''B'', 1), (CHR ''C'', 1)] =
     Inr [NodoHuffman (Some CHR ''A'') 1 None None, NodoHuffman (Some CHR ''B'') 1 None None,
          NodoHuffman (Some CHR ''C'') 1 None None] \<and>
   heappop [NodoHuffman (Some CHR ''A'') 1 None None, NodoHuffman (Some CHR ''B'') 1 None None,
            NodoHuffman (Some CHR ''C'') 1 None None] =
     Inr (NodoHuffman (Some CHR ''A'') 1 None None,
          [NodoHuffman (Some CHR ''B'') 1 None None, NodoHuffman (Some CHR ''C'') 1 None None]) \<and>
   heappop [NodoHuffman (Some CHR ''B'') 1 None None, NodoHuffman (Some CHR ''C'') 1 None None] =
     Inr (NodoHuffman (Some CHR ''B'') 1 None None, [NodoHuffman (Some CHR ''C'') 1 None None]) \<and>
   construir_desde_frecuencias ArbolHuffman_init
       [(CHR ''A'', 1), (CHR ''B'', 1), (CHR ''C'', 1), (CHR ''D'', 1)] =
     (Inr (),
      \<lparr>raiz = Some (NodoHuffman None 4
         (Some (NodoHuffman None 2
             (Some (NodoHuffman (Some CHR ''A'') 1 None None))
             (Some (NodoHuffman (Some CHR ''C'') 1 None None))))
         (Some (NodoHuffman None 2
             (Some (NodoHuffman (Some CHR ''B'') 1 None None))
             (Some (NodoHuffman (Some CHR ''D'') 1 None None))))),
       codigos = []\<rparr>)"
  by code_simp

text \<open>
  C4, amended. The priority queue compares nodes by weight alone, so nodes of equal weight
  are taken in the order of their positions in the heap. \<open>comprimir\<close> is all the same a
  function of the text: two calls on the same text return the same encoded output, the same
  code book and the same tree, whatever the state of the compressor before each call and
  whatever the clock.
\<close>

theorem comprimir_determinista:
  "nodo_lt n1 n2 = (frecuencia n1 < frecuencia n2) \<and>
   (\<exists>enc cods rz est1 est2 s1 s2.
      comprimir fl self1 texto t1 = (Inr (enc, cods, rz, est1), s1) \<and>
      comprimir fl self2 texto t2 = (Inr (enc, cods, rz, est2), s2))"
proof (cases "texto = []")
  case True
  then show ?thesis by (simp add: comprimir_vacio nodo_lt_def)
next
  case False
  from comprimir_no_vacio [OF False, of self1] obtain r cods enc where
    c: "construir_desde_frecuencias (arbol self1) (calcular_frecuencias texto)
          = (Inr (), (arbol self1)\<lparr>raiz := Some r\<rparr>)"
    and g: "generar_codigos ((arbol self1)\<lparr>raiz := Some r\<rparr>)
          = (cods, (arbol self1)\<lparr>raiz := Some r, codigos := cods\<rparr>)"
    and e: "codificar_texto texto cods = Inr enc"
    by blast
  have c2: "construir_desde_frecuencias (arbol self2) (calcular_frecuencias texto)
          = (Inr (), (arbol self2)\<lparr>raiz := Some r\<rparr>)"
    using construir_independiente [OF c, of "arbol self2"] by simp
  note g2 = generar_codigos_independiente [OF g, of "arbol self2"]
  note r1 = comprimir_resultado [OF False c g e, of fl t1]
  note r2 = comprimir_resultado [OF False c2 g2 e, of fl t2]
  from r1 r2 show ?thesis by (simp add: nodo_lt_def)
qed

end
